theory Spec2Isabelle
  imports Main "HOL-Library.AList"
begin

section \<open>Python values shared by the embedding\<close>

text \<open>
  Strings are byte lists: a Python \<open>str\<close> is represented by its UTF-8 encoding, so that
  equality of strings is equality of lists and \<open>requests.utils.quote\<close> (which works on the
  UTF-8 bytes) can be written out. Exceptions are values of \<open>pyerror\<close>; a function that can
  raise returns \<open>pyerror + 'a\<close>, with \<open>Inl\<close> the exception.
\<close>

datatype pyerror =
    ValueError string
  | TypeError string
  | NameError string
  | KeyError string
  | AttributeError string
  | UnboundLocalError string
  | ZeroDivisionError
  | HTTPError nat

text \<open>
  A Python \<open>dict\<close> is an association list with distinct keys in insertion order:
  \<open>d[k] = v\<close> is \<open>AList.update k v d\<close> (an existing key keeps its position, a new key is
  appended) and \<open>d.update(e)\<close> stores the items of \<open>e\<close> one by one, in the order of \<open>e\<close>.
\<close>

definition dict_update :: "('k \<times> 'v) list \<Rightarrow> ('k \<times> 'v) list \<Rightarrow> ('k \<times> 'v) list" where
  "dict_update d e = fold (\<lambda>(k, v). AList.update k v) e d"

section \<open>Validation of work lists: \<open>checkEntities\<close> and \<open>checkTitles\<close>\<close>

text \<open>
  The whitespace class of \<open>str.strip()\<close> and of the pattern \<open>\s\<close>, restricted to ASCII:
  space, tab, line feed, vertical tab, form feed, carriage return.
\<close>

definition is_space :: "char \<Rightarrow> bool" where
  "is_space c = (c \<in> set [CHR '' '', CHR 0x09, CHR 0x0A, CHR 0x0B, CHR 0x0C, CHR 0x0D])"

definition is_digit :: "char \<Rightarrow> bool" where
  "is_digit c = (c \<in> set ''0123456789'')"

definition strip :: "string \<Rightarrow> string" where
  "strip s = rev (dropWhile is_space (rev (dropWhile is_space s)))"



text \<open>
  \<open>list(dict.fromkeys(xs))\<close>: the keys are stored one by one in a dictionary, each with the
  value \<open>None\<close>, and read back in insertion order.
\<close>

definition fromkeys :: "'a list \<Rightarrow> ('a \<times> unit) list" where
  "fromkeys xs = fold (\<lambda>k. AList.update k ()) xs []"

definition dedup :: "'a list \<Rightarrow> 'a list" where
  "dedup xs = map fst (fromkeys xs)"


text \<open>A string between single quotes, as the f-strings of the messages write it.\<close>

definition sq :: "string \<Rightarrow> string" where
  "sq s = [CHR 0x27] @ s @ [CHR 0x27]"







section \<open>\<open>doChunks\<close>\<close>

text \<open>
  What a worker returns: a \<open>dict\<close>, a Pandas data frame (its rows, in order), or a tuple
  of two such values. \<open>pd.concat([a, b])\<close> appends the rows of \<open>b\<close> to those of \<open>a\<close>.
\<close>

datatype ('k, 'v, 'r) pyval = Dict "('k \<times> 'v) list" | Frame "'r list"

datatype ('k, 'v, 'r) result = Val "('k, 'v, 'r) pyval" | Tuple "('k, 'v, 'r) pyval" "('k, 'v, 'r) pyval"

text \<open>
  The merge of lines 93 to 104, for \<open>k > 0\<close>. The branch is chosen by the type of the new
  result \<open>d\<close> alone; where the aggregate \<open>output\<close> has another shape than the branch needs,
  Python raises (\<open>AttributeError\<close>, \<open>KeyError\<close> or \<open>TypeError\<close>, by the case) or leaves the
  outcome to Pandas: the model returns one \<open>TypeError\<close> for all of these.
\<close>

definition shape_error :: pyerror where
  "shape_error = TypeError ''the aggregate and the result of the chunk differ in shape''"

fun merge :: "('k, 'v, 'r) result \<Rightarrow> ('k, 'v, 'r) result \<Rightarrow> pyerror + ('k, 'v, 'r) result" where
  "merge (Val (Dict out)) (Val (Dict d)) = Inr (Val (Dict (dict_update out d)))"
| "merge (Tuple (Dict out0) (Dict out1)) (Tuple (Dict d0) (Dict d1)) =
     Inr (Tuple (Dict (dict_update out0 d0)) (Dict (dict_update out1 d1)))"
| "merge (Tuple (Frame out0) (Dict out1)) (Tuple (Frame d0) (Dict d1)) =
     Inr (Tuple (Frame (out0 @ d0)) (Dict (dict_update out1 d1)))"
| "merge (Val (Frame out)) (Val (Frame d)) = Inr (Val (Frame (out @ d)))"
| "merge _ _ = Inl shape_error"

text \<open>\<open>return(output)\<close>: the name is bound only once a chunk has been merged.\<close>

definition return_output :: "'o option \<Rightarrow> pyerror + 'o option" where
  "return_output output =
     (case output of
        None \<Rightarrow> Inl (UnboundLocalError ''output'')
      | Some out \<Rightarrow> Inr (Some out))"

text \<open>
  The \<open>for k in range(nlim+1)\<close> loop, over the list of the values of \<open>k\<close> still to come.
  The worker \<open>f\<close> returns a result, \<open>None\<close> or raises. The second component of the outcome
  lists the chunks the worker was called on, in the order of the calls.
\<close>

fun chunk_loop ::
  "('a list \<Rightarrow> pyerror + ('k, 'v, 'r) result option) \<Rightarrow> 'a list \<Rightarrow> nat \<Rightarrow> nat list \<Rightarrow>
   ('k, 'v, 'r) result option \<Rightarrow> (pyerror + ('k, 'v, 'r) result option) \<times> 'a list list" where
  "chunk_loop f x chunksize [] output = (return_output output, [])"
| "chunk_loop f x chunksize (k # ks) output =
     (let offset = k * chunksize;
          x_list = take chunksize (drop offset x)
      in if length x_list = 0 then (return_output output, [])
         else (case f x_list of
                 Inl e \<Rightarrow> (Inl e, [x_list])
               | Inr None \<Rightarrow> (Inr None, [x_list])
               | Inr (Some d) \<Rightarrow>
                   (if k = 0
                    then (let (r, calls) = chunk_loop f x chunksize ks (Some d) in (r, x_list # calls))
                    else (case output of
                            None \<Rightarrow> (Inl (UnboundLocalError ''output''), [x_list])
                          | Some out \<Rightarrow>
                              (case merge out d of
                                 Inl e \<Rightarrow> (Inl e, [x_list])
                               | Inr out' \<Rightarrow>
                                   (let (r, calls) = chunk_loop f x chunksize ks (Some out')
                                    in (r, x_list # calls)))))))"

text \<open>
  \<open>nlim = int(n/chunksize)\<close> is the integer quotient for a positive chunk size (the float
  quotient is exact enough for every list length); a chunk size of zero raises.
\<close>

definition doChunks ::
  "('a list \<Rightarrow> pyerror + ('k, 'v, 'r) result option) \<Rightarrow> 'a list \<Rightarrow> nat \<Rightarrow>
   (pyerror + ('k, 'v, 'r) result option) \<times> 'a list list" where
  "doChunks f x chunksize =
     (if chunksize = 0 then (Inl ZeroDivisionError, [])
      else (let n = length x;
                nlim = n div chunksize
            in chunk_loop f x chunksize [0..<nlim + 1] None))"

section \<open>The network\<close>

text \<open>
  A request is its method and its parameters. The server is the sequence of its answers:
  \<open>srv i\<close> answers the request sent after \<open>i\<close> earlier ones. The world records the
  requests sent and the calls of \<open>sleep\<close>, in order.
\<close>

type_synonym params = "(string \<times> string) list"

record world =
  requests :: "(string \<times> params) list"
  sleeps :: "nat list"

definition send :: "(nat \<Rightarrow> 'resp) \<Rightarrow> string \<Rightarrow> params \<Rightarrow> world \<Rightarrow> 'resp \<times> world" where
  "send srv method ps w = (srv (length (requests w)), w\<lparr>requests := requests w @ [(method, ps)]\<rparr>)"

definition sleep :: "nat \<Rightarrow> world \<Rightarrow> world" where
  "sleep t w = w\<lparr>sleeps := sleeps w @ [t]\<rparr>"

text \<open>\<open>response.raise_for_status()\<close> raises for the status codes from 400 to 599.\<close>

definition raise_for_status :: "nat \<Rightarrow> pyerror option" where
  "raise_for_status status_code =
     (if 400 \<le> status_code \<and> status_code < 600 then Some (HTTPError status_code) else None)"

text \<open>Decimal numerals, as \<open>str(n)\<close> and the f-strings write them and \<open>int(t)\<close> reads them.\<close>

definition digit_char :: "nat \<Rightarrow> char" where
  "digit_char d = ''0123456789'' ! (d mod 10)"

function show_nat :: "nat \<Rightarrow> string" where
  "show_nat n = (if n < 10 then [digit_char n] else show_nat (n div 10) @ [digit_char (n mod 10)])"
  by pat_completeness auto
termination
  by (relation "measure id") auto

declare show_nat.simps [simp del]

definition digit_val :: "char \<Rightarrow> nat" where
  "digit_val c = of_char c - of_char CHR ''0''"

definition int_of_digits :: "string \<Rightarrow> nat" where
  "int_of_digits t = foldl (\<lambda>a c. 10 * a + digit_val c) 0 t"

section \<open>\<open>reqWDQS\<close>\<close>

text \<open>
  The answer of the query service: its status code, the headers the function reads
  (\<open>None\<close> when the header is absent) and the text of the body.
\<close>

record wdqs_response =
  status_code :: nat
  retry_after :: "string option"
  content_type :: "string option"
  body :: string

text \<open>What \<open>reqWDQS\<close> returns: the decoded JSON, the text, or the data frame read from the CSV.\<close>

datatype ('j, 'd) wdqs_result = Json 'j | Xml string | Csv 'd

text \<open>\<open>re.match(r'^\d+$', t)\<close>: digits only, with one final line feed allowed by \<open>$\<close>.\<close>

definition digits_re :: "string \<Rightarrow> bool" where
  "digits_re t =
     (let ds = (if t \<noteq> [] \<and> last t = CHR 0x0A then butlast t else t)
      in ds \<noteq> [] \<and> list_all is_digit ds)"

text \<open>
  The wait computed from the \<open>Retry-after\<close> header (lines 183 to 188). \<open>http2time\<close> is the
  function of \<open>http.cookiejar\<close>, a parameter here: it returns the seconds since the epoch
  or \<open>None\<close>, and \<open>None - int(time())\<close> raises \<open>TypeError\<close>. \<open>now\<close> is \<open>int(time())\<close>.
  A missing header raises \<open>KeyError\<close>.
\<close>

definition retry_wait :: "(string \<Rightarrow> int option) \<Rightarrow> int \<Rightarrow> string option \<Rightarrow> pyerror + int" where
  "retry_wait http2time now header =
     (case header of
        None \<Rightarrow> Inl (KeyError ''retry-after'')
      | Some t \<Rightarrow>
          (if \<not> digits_re t
           then (case http2time t of
                   None \<Rightarrow> Inl (TypeError (''unsupported operand type(s) for -: '' @ sq ''NoneType'' @ '' and '' @ sq ''int''))
                 | Some target \<Rightarrow> Inr (target - now))
           else Inr (int (int_of_digits (filter is_digit t)))))"

text \<open>
  Line 190 is \<open>raise("ERROR: ...")\<close>: the operand of \<open>raise\<close> is a string, not an exception,
  so Python 3 raises \<open>TypeError\<close> with the message below, and the text of line 190 is lost.
\<close>

definition raise_str :: pyerror where
  "raise_str = TypeError ''exceptions must derive from BaseException''"

definition wdqs_format :: "string \<Rightarrow> string option" where
  "wdqs_format fmt =
     (if fmt = ''json'' then Some ''application/sparql-results+json''
      else if fmt = ''xml'' then Some ''application/sparql-results+xml''
      else if fmt = ''csv'' then Some ''text/csv''
      else None)"

definition startswith :: "string \<Rightarrow> string \<Rightarrow> bool" where
  "startswith s p = (take (length p) s = p)"

text \<open>
  Lines 196 to 205, for a response that is not a 429. \<open>json_decode\<close> is \<open>response.json()\<close> and
  \<open>read_csv\<close> is \<open>pd.read_csv(StringIO(response.text, newline=''), dtype=str)\<close>; both are
  parameters and may raise.
\<close>

definition wdqs_return ::
  "(string \<Rightarrow> pyerror + 'j) \<Rightarrow> (string \<Rightarrow> pyerror + 'd) \<Rightarrow> string \<Rightarrow> wdqs_response \<Rightarrow>
   pyerror + ('j, 'd) wdqs_result" where
  "wdqs_return json_decode read_csv fmt response =
     (case raise_for_status (status_code response) of
        Some e \<Rightarrow> Inl e
      | None \<Rightarrow>
          (case content_type response of
             None \<Rightarrow> Inl (KeyError ''content-type'')
           | Some rtype \<Rightarrow>
               (if fmt = ''json'' \<and> startswith rtype ''application/sparql-results+json''
                then map_sum id Json (json_decode (body response))
                else if fmt = ''xml'' \<and> startswith rtype ''application/sparql-results+xml''
                then Inr (Xml (body response))
                else if fmt = ''csv'' \<and> startswith rtype ''text/csv''
                then map_sum id Csv (read_csv (body response))
                else Inl (ValueError (''reqWDQS() format '' @ sq fmt @ '' or response type '' @
                                      sq rtype @ '' is incorrect'')))))"

text \<open>
  The \<open>while True\<close> loop of lines 174 to 205. It has no bound, so it is a partial function:
  \<open>None\<close> is the run that never returns. \<open>clock i\<close> is the value of \<open>int(time())\<close> read
  while the answer to request \<open>i\<close> is handled. \<open>sleep(t)\<close> raises \<open>ValueError\<close> for a negative
  \<open>t\<close>.
\<close>

partial_function (option) wdqs_loop ::
  "(string \<Rightarrow> int option) \<Rightarrow> (string \<Rightarrow> pyerror + 'j) \<Rightarrow> (string \<Rightarrow> pyerror + 'd) \<Rightarrow>
   (nat \<Rightarrow> wdqs_response) \<Rightarrow> (nat \<Rightarrow> int) \<Rightarrow> string \<Rightarrow> string \<Rightarrow> params \<Rightarrow> world \<Rightarrow>
   ((pyerror + ('j, 'd) wdqs_result) \<times> world) option" where
  "wdqs_loop http2time json_decode read_csv srv clock method fmt ps w =
     (if method \<noteq> ''GET'' \<and> method \<noteq> ''POST''
      then Some (Inl (ValueError (''Method '' @ sq method @ '' is not supported'')), w)
      else (let i = length (requests w);
                (response, w) = send srv method ps w
            in if status_code response = 429
               then (case retry_wait http2time (clock i) (retry_after response) of
                       Inl e \<Rightarrow> Some (Inl e, w)
                     | Inr t \<Rightarrow>
                         (if t > 600 then Some (Inl raise_str, w)
                          else if t < 0 then Some (Inl (ValueError ''sleep length must be non-negative''), w)
                          else wdqs_loop http2time json_decode read_csv srv clock method fmt ps
                                 (sleep (nat t) w)))
               else Some (wdqs_return json_decode read_csv fmt response, w)))"

definition reqWDQS ::
  "(string \<Rightarrow> int option) \<Rightarrow> (string \<Rightarrow> pyerror + 'j) \<Rightarrow> (string \<Rightarrow> pyerror + 'd) \<Rightarrow>
   (nat \<Rightarrow> wdqs_response) \<Rightarrow> (nat \<Rightarrow> int) \<Rightarrow> string \<Rightarrow> string \<Rightarrow> string \<Rightarrow> world \<Rightarrow>
   ((pyerror + ('j, 'd) wdqs_result) \<times> world) option" where
  "reqWDQS http2time json_decode read_csv srv clock sparql_query method fmt w =
     (case wdqs_format fmt of
        None \<Rightarrow> Some (Inl (ValueError (''Format '' @ sq fmt @ '' is not supported'')), w)
      | Some _ \<Rightarrow>
          wdqs_loop http2time json_decode read_csv srv clock method fmt [(''query'', sparql_query)] w)"

section \<open>\<open>reqMediaWiki\<close>\<close>

text \<open>
  The decoded JSON of the MediaWiki API, as far as the functions below read it. A key that
  may be absent is an \<open>option\<close>. An entry of \<open>query.normalized\<close> has \<open>from\<close>, \<open>to\<close> and
  possibly \<open>fromencoded\<close>; an entry of \<open>query.redirects\<close> has \<open>from\<close> and \<open>to\<close>; a page has its
  title, the marks \<open>invalid\<close> and \<open>missing\<close>, possibly a \<open>pageid\<close>, possibly the list
  \<open>links\<close> (the titles of its entries) and possibly \<open>pageprops\<close> (the optional
  \<open>wikibase_item\<close> and the mark \<open>disambiguation\<close>).
\<close>

record norm_entry =
  n_from :: string
  n_to :: string
  n_fromencoded :: "bool option"

record redirect_entry =
  r_from :: string
  r_to :: string

record page =
  p_title :: string
  p_invalid :: bool
  p_missing :: bool
  p_pageid :: bool
  p_links :: "string list option"
  p_pageprops :: "(string option \<times> bool) option"

record query_part =
  q_normalized :: "norm_entry list option"
  q_redirects :: "redirect_entry list option"
  q_pages :: "page list"

record mw_json =
  j_error :: "(string \<times> string) option"
  j_query :: "query_part option"
  j_continue :: "params option"

record mw_response =
  mw_status :: nat
  mw_json :: mw_json

text \<open>The number of titles in \<open>query['titles'].split('|')\<close>.\<close>

definition count_titles :: "string \<Rightarrow> nat" where
  "count_titles ts = length (filter (\<lambda>c. c = CHR ''|'') ts) + 1"

definition MW_LIMIT :: nat where
  "MW_LIMIT = 50"

text \<open>
  The \<open>while True\<close> loop of lines 1964 to 1993; \<open>nt\<close> is the counter before \<open>nt += 1\<close>. The
  loop goes round again only while \<open>nt \<le> attempts\<close>, which bounds it.
\<close>

function mw_loop ::
  "(nat \<Rightarrow> mw_response) \<Rightarrow> params \<Rightarrow> string \<Rightarrow> int \<Rightarrow> nat \<Rightarrow> world \<Rightarrow> (pyerror + mw_json) \<times> world" where
  "mw_loop srv query method attempts nt0 w =
     (let nt = nt0 + 1
      in if method \<noteq> ''GET'' \<and> method \<noteq> ''POST''
         then (Inl (ValueError (''Method '' @ sq method @ '' is not supported'')), w)
         else (let (response, w) = send srv method query w
               in case raise_for_status (mw_status response) of
                    Some e \<Rightarrow> (Inl e, w)
                  | None \<Rightarrow>
                      (let j = mw_json response
                       in case j_error j of
                            None \<Rightarrow> (Inr j, w)
                          | Some (code, info) \<Rightarrow>
                              (if code = ''ratelimited''
                               then (if int nt \<le> attempts
                                     then mw_loop srv query method attempts nt (sleep (60 * nt) w)
                                     else (Inl (NameError (show_nat nt @
                                             '' ratelimited attemps achieved, aborting.'')), w))
                               else (Inl (NameError (''ERROR: reqMediaWiki: '' @ code @ '': '' @ info)), w)))))"
  by pat_completeness auto
termination
  by (relation "measure (\<lambda>(srv, query, method, attempts, nt0, w). nat (attempts - int nt0))") auto

declare mw_loop.simps [simp del]

definition reqMediaWiki ::
  "(nat \<Rightarrow> mw_response) \<Rightarrow> params \<Rightarrow> string \<Rightarrow> string \<Rightarrow> int \<Rightarrow> world \<Rightarrow> (pyerror + mw_json) \<times> world" where
  "reqMediaWiki srv query project method attempts w =
     (if strip project = []
      then (Inl (ValueError (''Parameter '' @ sq ''query'' @ '' or parameter '' @ sq ''project'' @
                             '' or both are invalid'')), w)
      else (case map_of query ''titles'' of
              Some ts \<Rightarrow>
                (if count_titles ts > MW_LIMIT
                 then (Inl (ValueError (''The number of articles ('' @ show_nat (count_titles ts) @
                                        '') exceeds the MediaWiki API limit ('' @ show_nat MW_LIMIT @ '')'')), w)
                 else mw_loop srv query method attempts 0 w)
            | None \<Rightarrow> mw_loop srv query method attempts 0 w))"

section \<open>\<open>normalizedTitle\<close> and the pages of a response\<close>

text \<open>
  \<open>requests.utils.quote\<close> is \<open>urllib.parse.quote\<close> with \<open>safe='/'\<close>: every byte of the UTF-8
  encoding is kept if it is an ASCII letter, a digit or one of \<open>_.-~/\<close>, and written as
  \<open>%XX\<close> (upper-case hexadecimal) otherwise.
\<close>

definition always_safe :: "char \<Rightarrow> bool" where
  "always_safe c =
     (c \<in> set (''ABCDEFGHIJKLMNOPQRSTUVWXYZ'' @ ''abcdefghijklmnopqrstuvwxyz'' @ ''0123456789'' @ ''_.-~/''))"

definition hex_char :: "nat \<Rightarrow> char" where
  "hex_char d = ''0123456789ABCDEF'' ! (d mod 16)"

definition quote :: "string \<Rightarrow> string" where
  "quote s =
     concat (map (\<lambda>c. if always_safe c then [c]
                       else [CHR ''%'', hex_char (of_char c div 16), hex_char (of_char c mod 16)]) s)"

text \<open>The loop over \<open>q['normalized']\<close> (lines 2017 to 2024), from the running value \<open>anorm\<close>.\<close>

fun normalized_loop :: "string \<Rightarrow> norm_entry list \<Rightarrow> string" where
  "normalized_loop anorm [] = anorm"
| "normalized_loop anorm (nn # rest) =
     (let anorm = (if n_fromencoded nn = Some True \<and> quote anorm = n_from nn then n_to nn else anorm)
      in if n_from nn = anorm then n_to nn else normalized_loop anorm rest)"

text \<open>The loop over \<open>q['redirects']\<close> (lines 2030 to 2033).\<close>

fun redirects_loop :: "string \<Rightarrow> redirect_entry list \<Rightarrow> string option" where
  "redirects_loop anorm [] = None"
| "redirects_loop anorm (nn # rest) = (if r_from nn = anorm then Some (r_to nn) else redirects_loop anorm rest)"

definition normalizedTitle :: "string \<Rightarrow> query_part \<Rightarrow> string option \<times> string option" where
  "normalizedTitle title q =
     (let anorm = (case q_normalized q of None \<Rightarrow> title | Some l \<Rightarrow> normalized_loop title l);
          normalized = (if anorm = title then None else Some anorm);
          target = (case q_redirects q of None \<Rightarrow> None | Some l \<Rightarrow> redirects_loop anorm l)
      in (normalized, target))"

text \<open>\<open>next(n for n in [target, normalized, title] if n is not None)\<close>.\<close>

definition first_not_None :: "string option \<Rightarrow> string option \<Rightarrow> string \<Rightarrow> string" where
  "first_not_None target normalized title =
     (case target of
        Some t \<Rightarrow> t
      | None \<Rightarrow> (case normalized of Some n \<Rightarrow> n | None \<Rightarrow> title))"

section \<open>\<open>m_WikidataEntity\<close>: the pages of one response\<close>

record entity_row =
  e_status :: string
  e_normalized :: "string option"
  e_target :: "string option"
  e_entity :: "string option"

text \<open>Lines 2290 to 2301: the status and the Wikidata item read from a page.\<close>

definition page_status_item :: "page \<Rightarrow> string \<times> string option" where
  "page_status_item pg =
     (if p_invalid pg then (''invalid'', None)
      else if p_missing pg then (''missing'', None)
      else (case p_pageprops pg of
              None \<Rightarrow> (''no_pageprops'', None)
            | Some (None, disambiguation) \<Rightarrow> (''no_wikibase_item'', None)
            | Some (Some item, disambiguation) \<Rightarrow>
                (if disambiguation then ''disambiguation'' else ''OK'', Some item)))"

text \<open>The body of \<open>for title in titles\<close> (lines 2284 to 2307) and the loop itself.\<close>

definition wikidata_title :: "query_part \<Rightarrow> string \<Rightarrow> (string \<times> entity_row) list \<Rightarrow> (string \<times> entity_row) list" where
  "wikidata_title q title output =
     (let (normalized, target) = normalizedTitle title q;
          anorm = first_not_None target normalized title
      in fold (\<lambda>pg output.
                 if anorm = p_title pg
                 then (let (status, item) = page_status_item pg
                       in AList.update title
                            \<lparr>e_status = status, e_normalized = normalized, e_target = target,
                             e_entity = item\<rparr> output)
                 else output)
              (q_pages q) output)"

definition wikidata_titles :: "query_part \<Rightarrow> string list \<Rightarrow> (string \<times> entity_row) list \<Rightarrow> (string \<times> entity_row) list" where
  "wikidata_titles q titles output = fold (wikidata_title q) titles output"

section \<open>\<open>m_PageOutLinks\<close>: the continuation loop\<close>









section \<open>Notions used in the statements\<close>

text \<open>The Python slice \<open>x[i:j]\<close> for \<open>0 \<le> i \<le> j\<close>.\<close>

definition slice :: "'a list \<Rightarrow> nat \<Rightarrow> nat \<Rightarrow> 'a list" where
  "slice x i j = take (j - i) (drop i x)"

text \<open>The batches of a work list: the slices \<open>x[k*c:(k+1)*c]\<close> for \<open>k\<close> below \<open>ceil(len(x)/c)\<close>.\<close>

definition batches :: "'a list \<Rightarrow> nat \<Rightarrow> 'a list list" where
  "batches x c = map (\<lambda>k. slice x (k * c) ((k + 1) * c)) [0..<(length x + c - 1) div c]"

text \<open>The position of the first occurrence of \<open>a\<close> in \<open>L\<close>.\<close>

definition first_pos :: "'a list \<Rightarrow> 'a \<Rightarrow> nat" where
  "first_pos L a = length (takeWhile (\<lambda>y. y \<noteq> a) L)"

text \<open>The aggregate after the chunk \<open>k\<close> has returned \<open>d\<close> (lines 90 to 104).\<close>

definition next_output ::
  "nat \<Rightarrow> ('k, 'v, 'r) result option \<Rightarrow> ('k, 'v, 'r) result \<Rightarrow> pyerror + ('k, 'v, 'r) result" where
  "next_output k agg d =
     (if k = 0 then Inr d
      else (case agg of None \<Rightarrow> Inl (UnboundLocalError ''output'') | Some out \<Rightarrow> merge out d))"

text \<open>The merges of a list of results into an aggregate, one after the other.\<close>

fun merge_all :: "('k, 'v, 'r) result \<Rightarrow> ('k, 'v, 'r) result list \<Rightarrow> pyerror + ('k, 'v, 'r) result" where
  "merge_all out [] = Inr out"
| "merge_all out (d # ds) = (case merge out d of Inl e \<Rightarrow> Inl e | Inr out' \<Rightarrow> merge_all out' ds)"

text \<open>
  Workers for the examples: one that returns \<open>None\<close> at once, one that returns a dictionary
  from each identifier to its length, and one that does so but returns \<open>None\<close> on the chunk
  \<open>["Q2"]\<close>.
\<close>

definition none_worker :: "string list \<Rightarrow> pyerror + (string, nat, string) result option" where
  "none_worker b = Inr None"

definition size_worker :: "string list \<Rightarrow> pyerror + (string, nat, string) result option" where
  "size_worker b = Inr (Some (Val (Dict (map (\<lambda>q. (q, length q)) b))))"

definition flaky_worker :: "string list \<Rightarrow> pyerror + (string, nat, string) result option" where
  "flaky_worker b = (if b = [''Q2''] then Inr None else Inr (Some (Val (Dict (map (\<lambda>q. (q, length q)) b)))))"




text \<open>
  Answers of the MediaWiki API: one that passes \<open>raise_for_status\<close> and carries the error
  code \<open>ratelimited\<close>; one that passes and carries no error.
\<close>

definition ratelimited :: "mw_response \<Rightarrow> bool" where
  "ratelimited r =
     (raise_for_status (mw_status r) = None \<and>
      (case j_error (mw_json r) of Some (code, info) \<Rightarrow> code = ''ratelimited'' | None \<Rightarrow> False))"

definition no_error :: "mw_response \<Rightarrow> bool" where
  "no_error r = (raise_for_status (mw_status r) = None \<and> j_error (mw_json r) = None)"

text \<open>The query passes the checks of lines 1954 to 1960.\<close>

definition accepted :: "params \<Rightarrow> string \<Rightarrow> bool" where
  "accepted query project =
     (strip project \<noteq> [] \<and>
      (case map_of query ''titles'' of Some ts \<Rightarrow> count_titles ts \<le> MW_LIMIT | None \<Rightarrow> True))"

text \<open>Answers for the examples.\<close>

definition json_plain :: mw_json where
  "json_plain = \<lparr>j_error = None, j_query = None, j_continue = None\<rparr>"

definition resp_ratelimited :: mw_response where
  "resp_ratelimited =
     \<lparr>mw_status = 200, mw_json = json_plain\<lparr>j_error := Some (''ratelimited'', ''slow down'')\<rparr>\<rparr>"

definition resp_plain :: mw_response where
  "resp_plain = \<lparr>mw_status = 200, mw_json = json_plain\<rparr>"

definition resp_badtoken :: mw_response where
  "resp_badtoken =
     \<lparr>mw_status = 200, mw_json = json_plain\<lparr>j_error := Some (''badtoken'', ''Invalid token'')\<rparr>\<rparr>"

definition world0 :: world where
  "world0 = \<lparr>requests = [], sleeps = []\<rparr>"

text \<open>
  For the query service: the wait that \<open>reqWDQS\<close> computes for the answer number \<open>i\<close>, the
  answers with status 429 after which it sleeps and retries (the wait is between 0 and 600
  seconds), and the seconds it then sleeps.
\<close>

definition wait_of :: "(string \<Rightarrow> int option) \<Rightarrow> (nat \<Rightarrow> wdqs_response) \<Rightarrow> (nat \<Rightarrow> int) \<Rightarrow> nat \<Rightarrow> pyerror + int" where
  "wait_of http2time srv clock i = retry_wait http2time (clock i) (retry_after (srv i))"

definition retrying :: "(string \<Rightarrow> int option) \<Rightarrow> (nat \<Rightarrow> wdqs_response) \<Rightarrow> (nat \<Rightarrow> int) \<Rightarrow> nat \<Rightarrow> bool" where
  "retrying http2time srv clock i =
     (status_code (srv i) = 429 \<and>
      (case wait_of http2time srv clock i of Inr t \<Rightarrow> 0 \<le> t \<and> t \<le> 600 | Inl e \<Rightarrow> False))"

definition wait_secs :: "(string \<Rightarrow> int option) \<Rightarrow> (nat \<Rightarrow> wdqs_response) \<Rightarrow> (nat \<Rightarrow> int) \<Rightarrow> nat \<Rightarrow> nat" where
  "wait_secs http2time srv clock i = (case wait_of http2time srv clock i of Inr t \<Rightarrow> nat t | Inl e \<Rightarrow> 0)"

text \<open>
  For the examples: a date parser that knows one date, decoders that return the text, and
  answers of the query service.
\<close>

definition http2time_stub :: "string \<Rightarrow> int option" where
  "http2time_stub t = (if t = ''Wed, 21 Oct 2015 07:28:00 GMT'' then Some 1445412480 else None)"

definition decode_stub :: "string \<Rightarrow> pyerror + string" where
  "decode_stub t = Inr t"

definition resp_429 :: "string \<Rightarrow> wdqs_response" where
  "resp_429 t = \<lparr>status_code = 429, retry_after = Some t, content_type = None, body = []\<rparr>"

definition resp_200 :: "string \<Rightarrow> string \<Rightarrow> wdqs_response" where
  "resp_200 rtype text = \<lparr>status_code = 200, retry_after = None, content_type = Some rtype, body = text\<rparr>"



























section \<open>The loop of \<open>doChunks\<close>, one round at a time\<close>

lemma chunk_loop_break:
  "take c (drop (k * c) x) = [] \<Longrightarrow> chunk_loop f x c (k # ks) agg = (return_output agg, [])"
  by simp

lemma chunk_loop_raise:
  "take c (drop (k * c) x) \<noteq> [] \<Longrightarrow> f (take c (drop (k * c) x)) = Inl e \<Longrightarrow>
   chunk_loop f x c (k # ks) agg = (Inl e, [take c (drop (k * c) x)])"
  by simp

lemma chunk_loop_None:
  "take c (drop (k * c) x) \<noteq> [] \<Longrightarrow> f (take c (drop (k * c) x)) = Inr None \<Longrightarrow>
   chunk_loop f x c (k # ks) agg = (Inr None, [take c (drop (k * c) x)])"
  by simp

lemma chunk_loop_merge_error:
  "take c (drop (k * c) x) \<noteq> [] \<Longrightarrow> f (take c (drop (k * c) x)) = Inr (Some d) \<Longrightarrow>
   next_output k agg d = Inl e \<Longrightarrow>
   chunk_loop f x c (k # ks) agg = (Inl e, [take c (drop (k * c) x)])"
  by (simp add: next_output_def split: if_splits option.splits)

lemma chunk_loop_step:
  "take c (drop (k * c) x) \<noteq> [] \<Longrightarrow> f (take c (drop (k * c) x)) = Inr (Some d) \<Longrightarrow>
   next_output k agg d = Inr out \<Longrightarrow>
   chunk_loop f x c (k # ks) agg =
     (fst (chunk_loop f x c ks (Some out)), take c (drop (k * c) x) # snd (chunk_loop f x c ks (Some out)))"
  by (simp add: next_output_def split_beta split: if_splits option.splits)

lemma doChunks_loop:
  "0 < c \<Longrightarrow> doChunks f x c = chunk_loop f x c [0..<length x div c + 1] None"
  unfolding doChunks_def Let_def by simp

lemma takeWhile_upt_less: "m \<le> n \<Longrightarrow> takeWhile (\<lambda>k. k < m) [0..<n] = [0..<m]"
proof (induction n)
  case 0
  then show ?case by simp
next
  case (Suc n)
  show ?case
  proof (cases "m = Suc n")
    case True
    have "takeWhile (\<lambda>k. k < m) [0..<Suc n] = [0..<Suc n]"
      unfolding takeWhile_eq_all_conv using True by simp
    with True show ?thesis by simp
  next
    case False
    with Suc.prems have le: "m \<le> n" by simp
    show ?thesis
    proof (cases "m = n")
      case True
      have "takeWhile (\<lambda>k. k < m) ([0..<n] @ [n]) = [0..<n] @ takeWhile (\<lambda>k. k < m) [n]"
        by (rule takeWhile_append2) (simp add: True)
      with True show ?thesis by simp
    next
      case False
      with le have "m \<in> set [0..<n]" "\<not> m < m" by simp_all
      then have "takeWhile (\<lambda>k. k < m) ([0..<n] @ [n]) = takeWhile (\<lambda>k. k < m) [0..<n]"
        by (rule takeWhile_append1)
      with Suc.IH [OF le] show ?thesis by simp
    qed
  qed
qed

lemma slice_nonempty:
  "0 < c \<Longrightarrow> (take c (drop (k * c) x) \<noteq> []) = (k < (length x + c - 1) div c)"
proof -
  assume c: "0 < c"
  have "take c (drop (k * c) x) \<noteq> [] \<longleftrightarrow> k * c < length x" using c by auto
  also have "\<dots> \<longleftrightarrow> k < (length x + c - 1) div c"
  proof
    assume "k * c < length x"
    then have "k * c + c \<le> length x + c - 1" by simp
    then have "(k + 1) * c \<le> length x + c - 1" by (simp add: algebra_simps)
    then have "k + 1 \<le> (length x + c - 1) div c" using c
      by (simp add: less_eq_div_iff_mult_less_eq)
    then show "k < (length x + c - 1) div c" by simp
  next
    assume "k < (length x + c - 1) div c"
    then have "k + 1 \<le> (length x + c - 1) div c" by simp
    then have "(k + 1) * c \<le> length x + c - 1" using c
      by (simp add: less_eq_div_iff_mult_less_eq)
    then show "k * c < length x" using c by (simp add: algebra_simps)
  qed
  finally show ?thesis .
qed

lemma ceil_le: "0 < c \<Longrightarrow> (n + c - 1) div c \<le> n div c + (1::nat)"
proof -
  assume c: "0 < c"
  have "(n + c - 1) div c \<le> (n + c) div c" by (rule div_le_mono) simp
  also have "\<dots> = n div c + 1" using c by (simp add: div_add_self2)
  finally show ?thesis .
qed

lemma rounds_upt:
  "0 < c \<Longrightarrow> takeWhile (\<lambda>k. take c (drop (k * c) x) \<noteq> []) [0..<length x div c + 1] =
             [0..<(length x + c - 1) div c]"
  unfolding slice_nonempty by (rule takeWhile_upt_less [OF ceil_le])

lemma batches_rounds:
  "0 < c \<Longrightarrow> batches x c =
     map (\<lambda>k. take c (drop (k * c) x))
         (takeWhile (\<lambda>k. take c (drop (k * c) x) \<noteq> []) [0..<length x div c + 1])"
  unfolding rounds_upt by (simp add: batches_def slice_def)

section \<open>\<open>reqMediaWiki\<close>, one request at a time\<close>

lemma mw_loop_no_error:
  assumes "method = ''GET'' \<or> method = ''POST''"
    and "srv (length (requests w)) = r" and "no_error r"
  shows "mw_loop srv query method attempts nt0 w =
           (Inr (mw_json r), w\<lparr>requests := requests w @ [(method, query)]\<rparr>)"
  using assms by (subst mw_loop.simps) (auto simp: no_error_def send_def Let_def)

lemma mw_loop_retry:
  assumes "method = ''GET'' \<or> method = ''POST''"
    and "srv (length (requests w)) = r" and "ratelimited r"
    and "int (nt0 + 1) \<le> attempts"
  shows "mw_loop srv query method attempts nt0 w =
           mw_loop srv query method attempts (nt0 + 1)
             (sleep (60 * (nt0 + 1)) (w\<lparr>requests := requests w @ [(method, query)]\<rparr>))"
  using assms
  by (subst mw_loop.simps) (auto simp: ratelimited_def send_def Let_def split: option.splits)

lemma mw_loop_exceeded:
  assumes "method = ''GET'' \<or> method = ''POST''"
    and "srv (length (requests w)) = r" and "ratelimited r"
    and "\<not> int (nt0 + 1) \<le> attempts"
  shows "mw_loop srv query method attempts nt0 w =
           (Inl (NameError (show_nat (nt0 + 1) @ '' ratelimited attemps achieved, aborting.'')),
            w\<lparr>requests := requests w @ [(method, query)]\<rparr>)"
  using assms
  by (subst mw_loop.simps) (auto simp: ratelimited_def send_def Let_def split: option.splits)

lemma mw_loop_other_error:
  assumes "method = ''GET'' \<or> method = ''POST''"
    and "srv (length (requests w)) = r" and "raise_for_status (mw_status r) = None"
    and "j_error (mw_json r) = Some (code, info)" and "code \<noteq> ''ratelimited''"
  shows "mw_loop srv query method attempts nt0 w =
           (Inl (NameError (''ERROR: reqMediaWiki: '' @ code @ '': '' @ info)),
            w\<lparr>requests := requests w @ [(method, query)]\<rparr>)"
  using assms
  by (subst mw_loop.simps) (auto simp: send_def Let_def)

lemma reqMediaWiki_loop:
  "accepted query project \<Longrightarrow>
   reqMediaWiki srv query project method attempts w = mw_loop srv query method attempts 0 w"
  by (auto simp: reqMediaWiki_def accepted_def split: option.splits)

lemma mw_loop_retries:
  assumes "method = ''GET'' \<or> method = ''POST''"
  shows "\<forall>i < m. ratelimited (srv (length (requests w) + i)) \<Longrightarrow> int (nt0 + m) \<le> attempts \<Longrightarrow>
         mw_loop srv query method attempts nt0 w =
           mw_loop srv query method attempts (nt0 + m)
             (w\<lparr>requests := requests w @ replicate m (method, query),
                sleeps := sleeps w @ map (\<lambda>n. 60 * n) [nt0 + 1..<nt0 + m + 1]\<rparr>)"
proof (induction m arbitrary: nt0 w)
  case 0
  then show ?case by simp
next
  case (Suc m)
  let ?w = "sleep (60 * (nt0 + 1)) (w\<lparr>requests := requests w @ [(method, query)]\<rparr>)"
  from Suc.prems(1) have r0: "ratelimited (srv (length (requests w)))" by force
  from Suc.prems(2) have le: "int (nt0 + 1) \<le> attempts" by simp
  have step: "mw_loop srv query method attempts nt0 w = mw_loop srv query method attempts (nt0 + 1) ?w"
    by (rule mw_loop_retry [where srv=srv and w=w, OF assms refl r0 le])
  have "\<forall>i < m. ratelimited (srv (length (requests ?w) + i))"
  proof (intro allI impI)
    fix i assume "i < m"
    with Suc.prems(1) have "ratelimited (srv (length (requests w) + Suc i))" by blast
    then show "ratelimited (srv (length (requests ?w) + i))" by (simp add: sleep_def)
  qed
  moreover from Suc.prems(2) have "int (nt0 + 1 + m) \<le> attempts" by simp
  ultimately have ih: "mw_loop srv query method attempts (nt0 + 1) ?w =
      mw_loop srv query method attempts (nt0 + 1 + m)
        (?w\<lparr>requests := requests ?w @ replicate m (method, query),
            sleeps := sleeps ?w @ map (\<lambda>n. 60 * n) [nt0 + 1 + 1..<nt0 + 1 + m + 1]\<rparr>)"
    by (rule Suc.IH)
  have w: "?w\<lparr>requests := requests ?w @ replicate m (method, query),
            sleeps := sleeps ?w @ map (\<lambda>n. 60 * n) [nt0 + 1 + 1..<nt0 + 1 + m + 1]\<rparr> =
        w\<lparr>requests := requests w @ replicate (Suc m) (method, query),
          sleeps := sleeps w @ map (\<lambda>n. 60 * n) [nt0 + 1..<nt0 + Suc m + 1]\<rparr>"
    by (simp add: sleep_def upt_conv_Cons replicate_append_same)
  have "mw_loop srv query method attempts nt0 w =
      mw_loop srv query method attempts (nt0 + 1 + m)
        (w\<lparr>requests := requests w @ replicate (Suc m) (method, query),
          sleeps := sleeps w @ map (\<lambda>n. 60 * n) [nt0 + 1..<nt0 + Suc m + 1]\<rparr>)"
    unfolding step ih w ..
  then show ?case by simp
qed

lemma mw_loop_retries0:
  assumes "method = ''GET'' \<or> method = ''POST''"
    and "\<forall>i < m. ratelimited (srv (length (requests w) + i))" and "m \<le> a"
  shows "mw_loop srv query method (int a) 0 w =
           mw_loop srv query method (int a) m
             (w\<lparr>requests := requests w @ replicate m (method, query),
                sleeps := sleeps w @ map (\<lambda>n. 60 * n) [1..<m + 1]\<rparr>)"
  using mw_loop_retries [OF assms(1,2), of 0 "int a" query] assms(3) by simp

section \<open>\<open>reqWDQS\<close>, one request at a time\<close>

lemma wdqs_loop_retry:
  assumes "method = ''GET'' \<or> method = ''POST''"
    and "retrying http2time srv clock (length (requests w))"
  shows "wdqs_loop http2time json_decode read_csv srv clock method fmt ps w =
           wdqs_loop http2time json_decode read_csv srv clock method fmt ps
             (sleep (wait_secs http2time srv clock (length (requests w)))
                (w\<lparr>requests := requests w @ [(method, ps)]\<rparr>))"
  using assms
  by (subst wdqs_loop.simps)
     (auto simp: retrying_def wait_of_def wait_secs_def send_def Let_def split: sum.splits)

lemma wdqs_loop_over_limit:
  assumes "method = ''GET'' \<or> method = ''POST''"
    and "status_code (srv (length (requests w))) = 429"
    and "wait_of http2time srv clock (length (requests w)) = Inr t" and "t > 600"
  shows "wdqs_loop http2time json_decode read_csv srv clock method fmt ps w =
           Some (Inl raise_str, w\<lparr>requests := requests w @ [(method, ps)]\<rparr>)"
  using assms
  by (subst wdqs_loop.simps) (auto simp: wait_of_def send_def Let_def)

lemma wdqs_loop_return:
  assumes "method = ''GET'' \<or> method = ''POST''"
    and "status_code (srv (length (requests w))) \<noteq> 429"
  shows "wdqs_loop http2time json_decode read_csv srv clock method fmt ps w =
           Some (wdqs_return json_decode read_csv fmt (srv (length (requests w))),
                 w\<lparr>requests := requests w @ [(method, ps)]\<rparr>)"
  using assms
  by (subst wdqs_loop.simps) (auto simp: send_def Let_def)

lemma wdqs_loop_retries:
  assumes "method = ''GET'' \<or> method = ''POST''"
  shows "\<forall>i < m. retrying http2time srv clock (length (requests w) + i) \<Longrightarrow>
         wdqs_loop http2time json_decode read_csv srv clock method fmt ps w =
           wdqs_loop http2time json_decode read_csv srv clock method fmt ps
             (w\<lparr>requests := requests w @ replicate m (method, ps),
                sleeps := sleeps w @ map (wait_secs http2time srv clock)
                                         [length (requests w)..<length (requests w) + m]\<rparr>)"
proof (induction m arbitrary: w)
  case 0
  then show ?case by simp
next
  case (Suc m)
  let ?b = "length (requests w)"
  let ?w = "sleep (wait_secs http2time srv clock ?b) (w\<lparr>requests := requests w @ [(method, ps)]\<rparr>)"
  from Suc.prems have r0: "retrying http2time srv clock ?b" by force
  have step: "wdqs_loop http2time json_decode read_csv srv clock method fmt ps w =
              wdqs_loop http2time json_decode read_csv srv clock method fmt ps ?w"
    by (rule wdqs_loop_retry [OF assms r0])
  have "\<forall>i < m. retrying http2time srv clock (length (requests ?w) + i)"
  proof (intro allI impI)
    fix i assume "i < m"
    with Suc.prems have "retrying http2time srv clock (?b + Suc i)" by blast
    then show "retrying http2time srv clock (length (requests ?w) + i)" by (simp add: sleep_def)
  qed
  then have ih: "wdqs_loop http2time json_decode read_csv srv clock method fmt ps ?w =
      wdqs_loop http2time json_decode read_csv srv clock method fmt ps
        (?w\<lparr>requests := requests ?w @ replicate m (method, ps),
            sleeps := sleeps ?w @ map (wait_secs http2time srv clock)
                                      [length (requests ?w)..<length (requests ?w) + m]\<rparr>)"
    by (rule Suc.IH)
  have w: "?w\<lparr>requests := requests ?w @ replicate m (method, ps),
            sleeps := sleeps ?w @ map (wait_secs http2time srv clock)
                                      [length (requests ?w)..<length (requests ?w) + m]\<rparr> =
        w\<lparr>requests := requests w @ replicate (Suc m) (method, ps),
          sleeps := sleeps w @ map (wait_secs http2time srv clock) [?b..<?b + Suc m]\<rparr>"
  proof -
    have u: "[?b..<?b + Suc m] = ?b # [Suc ?b..<Suc ?b + m]"
      by (subst upt_conv_Cons) simp_all
    show ?thesis unfolding u by (simp add: sleep_def replicate_append_same del: upt_Suc)
  qed
  show ?case unfolding step ih w ..
qed

lemma reqWDQS_loop:
  "wdqs_format fmt = Some mime \<Longrightarrow>
   reqWDQS http2time json_decode read_csv srv clock sparql_query method fmt w =
     wdqs_loop http2time json_decode read_csv srv clock method fmt [(''query'', sparql_query)] w"
  by (simp add: reqWDQS_def)

lemma reqWDQS_retries:
  assumes "method = ''GET'' \<or> method = ''POST''" and "wdqs_format fmt = Some mime"
    and "\<forall>i < m. retrying http2time srv clock (length (requests w) + i)"
  shows "reqWDQS http2time json_decode read_csv srv clock sparql_query method fmt w =
           wdqs_loop http2time json_decode read_csv srv clock method fmt [(''query'', sparql_query)]
             (w\<lparr>requests := requests w @ replicate m (method, [(''query'', sparql_query)]),
                sleeps := sleeps w @ map (wait_secs http2time srv clock)
                                         [length (requests w)..<length (requests w) + m]\<rparr>)"
  unfolding reqWDQS_loop [OF assms(2)] by (rule wdqs_loop_retries [OF assms(1,3)])

lemma reqWDQS_returns:
  assumes "method = ''GET'' \<or> method = ''POST''" and "wdqs_format fmt = Some mime"
    and "\<forall>i < m. retrying http2time srv clock (length (requests w) + i)"
    and "status_code (srv (length (requests w) + m)) \<noteq> 429"
  shows "reqWDQS http2time json_decode read_csv srv clock sparql_query method fmt w =
          Some (wdqs_return json_decode read_csv fmt (srv (length (requests w) + m)),
                w\<lparr>requests := requests w @ replicate (m + 1) (method, [(''query'', sparql_query)]),
                  sleeps := sleeps w @ map (wait_secs http2time srv clock)
                                           [length (requests w)..<length (requests w) + m]\<rparr>)"
proof -
  let ?b = "length (requests w)"
  let ?ps = "[(''query'', sparql_query)]"
  define W where "W = w\<lparr>requests := requests w @ replicate m (method, ?ps),
                         sleeps := sleeps w @ map (wait_secs http2time srv clock) [?b..<?b + m]\<rparr>"
  have len: "length (requests W) = ?b + m" by (simp add: W_def)
  have snoc: "W\<lparr>requests := requests W @ [(method, ?ps)]\<rparr> =
              w\<lparr>requests := requests w @ replicate (m + 1) (method, ?ps),
                sleeps := sleeps w @ map (wait_secs http2time srv clock) [?b..<?b + m]\<rparr>"
    by (simp add: W_def replicate_append_same)
  have run: "reqWDQS http2time json_decode read_csv srv clock sparql_query method fmt w =
             wdqs_loop http2time json_decode read_csv srv clock method fmt ?ps W"
    unfolding W_def by (rule reqWDQS_retries [OF assms(1,2,3)])
  from assms(4) have "status_code (srv (length (requests W))) \<noteq> 429" unfolding len .
  then have "wdqs_loop http2time json_decode read_csv srv clock method fmt ?ps W =
      Some (wdqs_return json_decode read_csv fmt (srv (length (requests W))),
            W\<lparr>requests := requests W @ [(method, ?ps)]\<rparr>)"
    by (rule wdqs_loop_return [where srv=srv and w=W, OF assms(1)])
  then show ?thesis unfolding run snoc len .
qed

section \<open>The continuation loop, one response at a time\<close>












section \<open>The rows of \<open>m_PageOutLinks\<close>, one page at a time\<close>















section \<open>The deduplication of work lists\<close>

lemma keys_update:
  "map fst (AList.update k v d) = (if k \<in> set (map fst d) then map fst d else map fst d @ [k])"
  by (induction d) auto

lemma dedup_Nil: "dedup [] = []"
  by (simp add: dedup_def fromkeys_def)

lemma dedup_snoc: "dedup (xs @ [x]) = (if x \<in> set (dedup xs) then dedup xs else dedup xs @ [x])"
  by (simp add: dedup_def fromkeys_def keys_update)

lemma set_dedup: "set (dedup xs) = set xs"
  by (induction xs rule: rev_induct) (auto simp: dedup_Nil dedup_snoc)

lemma distinct_dedup: "distinct (dedup xs)"
  by (induction xs rule: rev_induct) (auto simp: dedup_Nil dedup_snoc)

lemma dedup_append_distinct:
  "distinct ys \<Longrightarrow> dedup (xs @ ys) = dedup xs @ filter (\<lambda>y. y \<notin> set xs) ys"
proof (induction ys rule: rev_induct)
  case Nil
  then show ?case by simp
next
  case (snoc y ys)
  then have "dedup (xs @ ys) = dedup xs @ filter (\<lambda>y. y \<notin> set xs) ys" by simp
  moreover have "dedup (xs @ ys @ [y]) = dedup ((xs @ ys) @ [y])" by simp
  ultimately show ?case using snoc.prems
    by (simp only: dedup_snoc) (auto simp: set_dedup)
qed

lemma dedup_distinct_id: "distinct ys \<Longrightarrow> dedup ys = ys"
  using dedup_append_distinct [of ys "[]"] by (simp add: dedup_Nil)

lemma first_pos_snoc_in: "a \<in> set xs \<Longrightarrow> first_pos (xs @ [x]) a = first_pos xs a"
  by (simp add: first_pos_def takeWhile_append1)

lemma first_pos_less: "a \<in> set xs \<Longrightarrow> first_pos xs a < length xs"
  unfolding first_pos_def by (induction xs) auto

lemma first_pos_new: "x \<notin> set xs \<Longrightarrow> first_pos (xs @ [x]) x = length xs"
  unfolding first_pos_def by (induction xs) auto

lemma dedup_order: "sorted_wrt (\<lambda>a b. first_pos L a < first_pos L b) (dedup L)"
proof (induction L rule: rev_induct)
  case Nil
  show ?case by (simp add: dedup_Nil)
next
  case (snoc x xs)
  have keep: "sorted_wrt (\<lambda>a b. first_pos (xs @ [x]) a < first_pos (xs @ [x]) b) (dedup xs)"
    using snoc.IH
    by (rule sorted_wrt_mono_rel [rotated]) (simp add: first_pos_snoc_in set_dedup)
  show ?case
  proof (cases "x \<in> set xs")
    case True
    with keep show ?thesis by (simp add: dedup_snoc set_dedup)
  next
    case False
    with keep show ?thesis
      by (simp add: dedup_snoc set_dedup sorted_wrt_append first_pos_snoc_in first_pos_new first_pos_less)
  qed
qed

text \<open>
  Claim C9. The deduplication \<open>list(dict.fromkeys(L))\<close> that ends \<open>checkEntities\<close> and
  \<open>checkTitles\<close> is idempotent; its result has every element of \<open>L\<close> exactly once; and the
  elements stand in the order of their first occurrences in \<open>L\<close>: along the result the
  positions of the first occurrences in \<open>L\<close> increase strictly.
\<close>

theorem dedup_idempotent_first_occurrence:
  "dedup (dedup L) = dedup L \<and> distinct (dedup L) \<and> set (dedup L) = set L \<and>
   sorted_wrt (\<lambda>a b. first_pos L a < first_pos L b) (dedup L)"
  by (simp add: dedup_distinct_id distinct_dedup set_dedup dedup_order)

section \<open>The invocations of the worker\<close>

lemma chunk_loop_calls:
  "chunk_loop f x c ks agg = (Inr (Some out), calls) \<Longrightarrow>
   calls = map (\<lambda>k. take c (drop (k * c) x)) (takeWhile (\<lambda>k. take c (drop (k * c) x) \<noteq> []) ks)"
proof (induction ks arbitrary: agg calls)
  case Nil
  then show ?case by simp
next
  case (Cons k ks)
  let ?b = "take c (drop (k * c) x)"
  show ?case
  proof (cases "?b = []")
    case True
    from Cons.prems show ?thesis
      unfolding chunk_loop_break [where f=f and k=k and c=c and x=x, OF True] using True by simp
  next
    case ne: False
    show ?thesis
    proof (cases "f ?b")
      case (Inl e)
      from Cons.prems show ?thesis
        unfolding chunk_loop_raise [where f=f and k=k and c=c and x=x, OF ne Inl] by simp
    next
      case (Inr o1)
      show ?thesis
      proof (cases o1)
        case None
        with Inr have fb: "f ?b = Inr None" by simp
        from Cons.prems show ?thesis
          unfolding chunk_loop_None [where f=f and k=k and c=c and x=x, OF ne fb] by simp
      next
        case (Some d)
        with Inr have fb: "f ?b = Inr (Some d)" by simp
        show ?thesis
        proof (cases "next_output k agg d")
          case (Inl e)
          from Cons.prems show ?thesis
            unfolding chunk_loop_merge_error [where f=f and k=k and c=c and x=x, OF ne fb Inl] by simp
        next
          case (Inr out1)
          obtain r' calls' where rec: "chunk_loop f x c ks (Some out1) = (r', calls')"
            by (cases "chunk_loop f x c ks (Some out1)")
          from Cons.prems have r: "r' = Inr (Some out)" and calls: "calls = ?b # calls'"
            unfolding chunk_loop_step [where f=f and k=k and c=c and x=x, OF ne fb Inr] rec by simp_all
          from Cons.IH [OF rec [unfolded r]] calls ne show ?thesis by simp
        qed
      qed
    qed
  qed
qed

text \<open>
  Claim C1, amended. For a chunk size \<open>c \<ge> 1\<close>: whenever \<open>doChunks\<close> returns an aggregate
  (so no call of the worker has returned \<open>None\<close> or raised, and every merge has succeeded),
  it has called the worker exactly \<open>ceil(len(x)/c)\<close> times, the call number \<open>k\<close> on the slice
  \<open>x[k*c:(k+1)*c]\<close>, in this order; and for the empty work list it calls the worker zero
  times.
\<close>

theorem doChunks_invocations:
  assumes "1 \<le> c"
  shows "(fst (doChunks f x c) = Inr (Some out) \<longrightarrow>
           snd (doChunks f x c) = map (\<lambda>k. slice x (k * c) ((k + 1) * c)) [0..<(length x + c - 1) div c]) \<and>
         snd (doChunks f [] c) = []"
proof -
  have c: "0 < c" using assms by simp
  have "snd (doChunks f x c) = map (\<lambda>k. slice x (k * c) ((k + 1) * c)) [0..<(length x + c - 1) div c]"
    if "fst (doChunks f x c) = Inr (Some out)"
  proof -
    from that obtain calls where run: "chunk_loop f x c [0..<length x div c + 1] None = (Inr (Some out), calls)"
      unfolding doChunks_loop [OF c] by (cases "chunk_loop f x c [0..<length x div c + 1] None") simp
    from chunk_loop_calls [OF run] have "calls = batches x c"
      unfolding batches_rounds [OF c] .
    then show ?thesis
      unfolding doChunks_loop [OF c] run by (simp add: batches_def)
  qed
  moreover have "snd (doChunks f [] c) = []" using c by (simp add: doChunks_def)
  ultimately show ?thesis by blast
qed

theorem doChunks_invocations_witness:
  "(1::nat) \<le> 2 \<and>
   fst (doChunks size_worker [''Q1'', ''Q2'', ''Q3''] 2) =
     Inr (Some (Val (Dict [(''Q1'', 2), (''Q2'', 2), (''Q3'', 2)]))) \<and>
   snd (doChunks size_worker [''Q1'', ''Q2'', ''Q3''] 2) = [[''Q1'', ''Q2''], [''Q3'']] \<and>
   snd (doChunks size_worker [] 2) = []"
proof -
  have h: "fst (doChunks size_worker [''Q1'', ''Q2'', ''Q3''] 2) =
             Inr (Some (Val (Dict [(''Q1'', 2), (''Q2'', 2), (''Q3'', 2)])))"
    by code_simp
  have up: "[0..<2] = [0, 1]" by (simp add: upt_rec)
  from doChunks_invocations [of 2 size_worker "[''Q1'', ''Q2'', ''Q3'']"
      "Val (Dict [(''Q1'', 2), (''Q2'', 2), (''Q3'', 2)])"] h
  show ?thesis by (simp add: slice_def up)
qed

text \<open>
  The claim as it was stated fails where a call of the worker returns \<open>None\<close>: with three
  identifiers and chunk size 1 the worker is called once, not three times.
\<close>

theorem doChunks_invocations_counterexample:
  "snd (doChunks none_worker [''Q1'', ''Q2'', ''Q3''] 1) = [[''Q1'']] \<and>
   (length [''Q1'', ''Q2'', ''Q3''] + 1 - 1) div 1 = (3::nat)"
  by code_simp

section \<open>A worker that returns \<open>None\<close>\<close>

lemma chunk_loop_none:
  "chunk_loop f x c ks agg = (r, calls) \<Longrightarrow> i < length calls \<Longrightarrow> f (calls ! i) = Inr None \<Longrightarrow>
   r = Inr None \<and> Suc i = length calls"
proof (induction ks arbitrary: agg calls r i)
  case Nil
  then show ?case by simp
next
  case (Cons k ks)
  let ?b = "take c (drop (k * c) x)"
  show ?case
  proof (cases "?b = []")
    case True
    from Cons.prems show ?thesis
      unfolding chunk_loop_break [where f=f and k=k and c=c and x=x, OF True] by simp
  next
    case ne: False
    show ?thesis
    proof (cases "f ?b")
      case (Inl e)
      from Cons.prems show ?thesis
        unfolding chunk_loop_raise [where f=f and k=k and c=c and x=x, OF ne Inl] using Inl by auto
    next
      case (Inr o1)
      show ?thesis
      proof (cases o1)
        case None
        with Inr have fb: "f ?b = Inr None" by simp
        from Cons.prems show ?thesis
          unfolding chunk_loop_None [where f=f and k=k and c=c and x=x, OF ne fb] by auto
      next
        case (Some d)
        with Inr have fb: "f ?b = Inr (Some d)" by simp
        show ?thesis
        proof (cases "next_output k agg d")
          case (Inl e)
          from Cons.prems show ?thesis
            unfolding chunk_loop_merge_error [where f=f and k=k and c=c and x=x, OF ne fb Inl]
            using fb by auto
        next
          case (Inr out)
          obtain r' calls' where rec: "chunk_loop f x c ks (Some out) = (r', calls')"
            by (cases "chunk_loop f x c ks (Some out)")
          from Cons.prems(1) have r: "r = r'" and calls: "calls = ?b # calls'"
            unfolding chunk_loop_step [where f=f and k=k and c=c and x=x, OF ne fb Inr] rec by simp_all
          show ?thesis
          proof (cases i)
            case 0
            with Cons.prems(3) calls fb show ?thesis by simp
          next
            case (Suc j)
            with Cons.prems(2,3) calls have "j < length calls'" "f (calls' ! j) = Inr None" by simp_all
            from Cons.IH [OF rec this] r calls Suc show ?thesis by simp
          qed
        qed
      qed
    qed
  qed
qed

text \<open>
  Claim C5. For a chunk size \<open>c \<ge> 1\<close>: if the call number \<open>i\<close> of the worker returns \<open>None\<close>,
  then \<open>doChunks\<close> returns \<open>None\<close>, with nothing of what it had merged before, and that call
  is the last one: no later chunk is handed to the worker.
\<close>

theorem doChunks_fail_fast:
  assumes "1 \<le> c" and "i < length (snd (doChunks f x c))" and "f (snd (doChunks f x c) ! i) = Inr None"
  shows "fst (doChunks f x c) = Inr None \<and> Suc i = length (snd (doChunks f x c))"
proof -
  have c: "0 < c" using assms(1) by simp
  obtain r calls where rc: "chunk_loop f x c [0..<length x div c + 1] None = (r, calls)"
    by (cases "chunk_loop f x c [0..<length x div c + 1] None")
  from assms(2,3) have "i < length calls" "f (calls ! i) = Inr None"
    unfolding doChunks_loop [OF c] rc by simp_all
  from chunk_loop_none [OF rc this] show ?thesis
    unfolding doChunks_loop [OF c] rc by simp
qed

theorem doChunks_fail_fast_witness:
  "(1::nat) \<le> 1 \<and>
   snd (doChunks flaky_worker [''Q1'', ''Q2'', ''Q3''] 1) = [[''Q1''], [''Q2'']] \<and>
   flaky_worker [''Q1''] = Inr (Some (Val (Dict [(''Q1'', 2)]))) \<and>
   flaky_worker [''Q2''] = Inr None \<and>
   fst (doChunks flaky_worker [''Q1'', ''Q2'', ''Q3''] 1) = Inr None"
proof -
  have calls: "snd (doChunks flaky_worker [''Q1'', ''Q2'', ''Q3''] 1) = [[''Q1''], [''Q2'']]"
    by code_simp
  have w1: "flaky_worker [''Q1''] = Inr (Some (Val (Dict [(''Q1'', 2)])))"
    and w2: "flaky_worker [''Q2''] = Inr None"
    by (simp_all add: flaky_worker_def)
  from doChunks_fail_fast [of 1 1 flaky_worker "[''Q1'', ''Q2'', ''Q3'']", unfolded calls] w2
  have "fst (doChunks flaky_worker [''Q1'', ''Q2'', ''Q3''] 1) = Inr None" by simp
  with calls w1 w2 show ?thesis by simp
qed

section \<open>The merge of the results\<close>

lemma map_of_dict_update:
  "distinct (map fst e) \<Longrightarrow> map_of (dict_update d e) = map_of d ++ map_of e"
proof (induction e arbitrary: d)
  case Nil
  then show ?case by (simp add: dict_update_def)
next
  case (Cons p e)
  obtain k v where p: "p = (k, v)" by (cases p)
  from Cons.prems p have k: "k \<notin> dom (map_of e)" and de: "distinct (map fst e)"
    by (auto simp: dom_map_of_conv_image_fst)
  have "map_of (dict_update d (p # e)) = map_of (dict_update (AList.update k v d) e)"
    by (simp add: dict_update_def p)
  also have "\<dots> = (map_of d)(k \<mapsto> v) ++ map_of e"
    unfolding Cons.IH [OF de] by (simp only: update_conv')
  also have "\<dots> = map_of d ++ map_of (p # e)"
    using k by (auto simp: p map_add_def fun_eq_iff split: option.splits)
  finally show ?case .
qed

lemma chunk_loop_merge_all:
  assumes "0 \<notin> set ks" and "\<And>b. f b = Inr (Some (d b))"
    and "merge_all out (map d (map (\<lambda>k. take c (drop (k * c) x))
           (takeWhile (\<lambda>k. take c (drop (k * c) x) \<noteq> []) ks))) = Inr out'"
  shows "fst (chunk_loop f x c ks (Some out)) = Inr (Some out')"
  using assms(1,3)
proof (induction ks arbitrary: out)
  case Nil
  then show ?case by (simp add: return_output_def)
next
  case (Cons k ks)
  let ?b = "take c (drop (k * c) x)"
  show ?case
  proof (cases "?b = []")
    case True
    then have "takeWhile (\<lambda>k. take c (drop (k * c) x) \<noteq> []) (k # ks) = []" by simp
    with Cons.prems(2) have "out' = out" by simp
    then show ?thesis
      unfolding chunk_loop_break [where f=f and k=k and c=c and x=x, OF True]
      by (simp add: return_output_def)
  next
    case ne: False
    from Cons.prems(1) have k: "k \<noteq> 0" and ks: "0 \<notin> set ks" by auto
    from Cons.prems(2) ne obtain o1 where m: "merge out (d ?b) = Inr o1"
      and rest: "merge_all o1 (map d (map (\<lambda>k. take c (drop (k * c) x))
                   (takeWhile (\<lambda>k. take c (drop (k * c) x) \<noteq> []) ks))) = Inr out'"
      by (auto split: sum.splits)
    from k m have n: "next_output k (Some out) (d ?b) = Inr o1" by (simp add: next_output_def)
    show ?thesis
      unfolding chunk_loop_step [where f=f and k=k and c=c and x=x, OF ne assms(2) n]
      using Cons.IH [OF ks rest] by simp
  qed
qed

lemma doChunks_merge_all:
  assumes "1 \<le> c" and "x \<noteq> []" and "\<And>b. f b = Inr (Some (d b))"
    and "merge_all (d (hd (batches x c))) (map d (tl (batches x c))) = Inr out"
  shows "fst (doChunks f x c) = Inr (Some out)"
proof -
  have c: "0 < c" using assms(1) by simp
  let ?P = "\<lambda>k. take c (drop (k * c) x) \<noteq> []"
  let ?ks = "[1..<length x div c + 1]"
  have u: "[0..<length x div c + 1] = 0 # ?ks" by (simp add: upt_rec)
  have P0: "?P 0" using c assms(2) by simp
  have b: "batches x c = take c x # map (\<lambda>k. take c (drop (k * c) x)) (takeWhile ?P ?ks)"
    unfolding batches_rounds [OF c] u using P0 by simp
  have ne: "take c (drop (0 * c) x) \<noteq> []" using P0 .
  have f0: "f (take c (drop (0 * c) x)) = Inr (Some (d (take c x)))" using assms(3) by simp
  have n: "next_output 0 None (d (take c x)) = Inr (d (take c x))" by (simp add: next_output_def)
  have "0 \<notin> set ?ks" by simp
  from chunk_loop_merge_all [of ?ks f d, OF this assms(3), of "d (take c x)" c x out] assms(4)
  have "fst (chunk_loop f x c ?ks (Some (d (take c x)))) = Inr (Some out)"
    unfolding b by simp
  then show ?thesis
    unfolding doChunks_loop [OF c] u
      chunk_loop_step [where f=f and k=0 and c=c and x=x, OF ne f0 n]
    by simp
qed

lemma batches_not_Nil: "0 < c \<Longrightarrow> x \<noteq> [] \<Longrightarrow> batches x c \<noteq> []"
proof -
  assume c: "0 < c" and x: "x \<noteq> []"
  have "take c (drop (0 * c) x) \<noteq> []" using c x by simp
  then have "0 < (length x + c - 1) div c" unfolding slice_nonempty [OF c] .
  then show ?thesis by (simp add: batches_def)
qed

lemma merge_all_Dict:
  "\<forall>e \<in> set ds. distinct (map fst e) \<Longrightarrow>
   \<exists>D. merge_all (Val (Dict out)) (map (\<lambda>e. Val (Dict e)) ds) = Inr (Val (Dict D)) \<and>
       map_of D = foldl (++) (map_of out) (map map_of ds)"
proof (induction ds arbitrary: out)
  case Nil
  then show ?case by simp
next
  case (Cons e ds)
  then have e: "distinct (map fst e)" and ds: "\<forall>e \<in> set ds. distinct (map fst e)" by simp_all
  from Cons.IH [OF ds, of "dict_update out e"] show ?case
    by (simp add: map_of_dict_update [OF e])
qed

lemma merge_all_Frame:
  "merge_all (Val (Frame out)) (map (\<lambda>r. Val (Frame r)) rs) = Inr (Val (Frame (out @ concat rs)))"
  by (induction rs arbitrary: out) simp_all

lemma merge_all_Tuple_Dict:
  "\<forall>p \<in> set ps. distinct (map fst (fst p)) \<and> distinct (map fst (snd p)) \<Longrightarrow>
   \<exists>D0 D1. merge_all (Tuple (Dict out0) (Dict out1)) (map (\<lambda>p. Tuple (Dict (fst p)) (Dict (snd p))) ps)
              = Inr (Tuple (Dict D0) (Dict D1)) \<and>
       map_of D0 = foldl (++) (map_of out0) (map (map_of \<circ> fst) ps) \<and>
       map_of D1 = foldl (++) (map_of out1) (map (map_of \<circ> snd) ps)"
proof (induction ps arbitrary: out0 out1)
  case Nil
  then show ?case by simp
next
  case (Cons p ps)
  then have p: "distinct (map fst (fst p))" "distinct (map fst (snd p))"
    and ps: "\<forall>p \<in> set ps. distinct (map fst (fst p)) \<and> distinct (map fst (snd p))" by simp_all
  from Cons.IH [OF ps, of "dict_update out0 (fst p)" "dict_update out1 (snd p)"] show ?case
    by (simp add: map_of_dict_update [OF p(1)] map_of_dict_update [OF p(2)])
qed

lemma merge_all_Tuple_Frame:
  "\<forall>p \<in> set ps. distinct (map fst (snd p)) \<Longrightarrow>
   \<exists>D1. merge_all (Tuple (Frame out0) (Dict out1)) (map (\<lambda>p. Tuple (Frame (fst p)) (Dict (snd p))) ps)
              = Inr (Tuple (Frame (out0 @ concat (map fst ps))) (Dict D1)) \<and>
       map_of D1 = foldl (++) (map_of out1) (map (map_of \<circ> snd) ps)"
proof (induction ps arbitrary: out0 out1)
  case Nil
  then show ?case by simp
next
  case (Cons p ps)
  then have p: "distinct (map fst (snd p))"
    and ps: "\<forall>p \<in> set ps. distinct (map fst (snd p))" by simp_all
  from Cons.IH [OF ps, of "out0 @ fst p" "dict_update out1 (snd p)"] show ?case
    by (simp add: map_of_dict_update [OF p])
qed

lemma foldl_map_add_empty: "foldl (++) Map.empty (m # ms) = foldl (++) m ms"
  by simp

lemma doChunks_Dict:
  assumes "1 \<le> c" and "x \<noteq> []" and "\<forall>b \<in> set (batches x c). distinct (map fst (g b))"
  shows "\<exists>D. fst (doChunks (\<lambda>b. Inr (Some (Val (Dict (g b))))) x c) =
               Inr (Some (Val (Dict D) :: ('k, 'v, 'r) result)) \<and>
             map_of D = foldl (++) Map.empty (map (map_of \<circ> g) (batches x c))"
proof -
  from assms(1,2) obtain b0 bs where b: "batches x c = b0 # bs"
    using batches_not_Nil [of c x] by (cases "batches x c") simp_all
  from assms(3) have "\<forall>e \<in> set (map g bs). distinct (map fst e)" unfolding b by simp
  from merge_all_Dict [OF this, of "g b0"] obtain D
    where m: "merge_all (Val (Dict (g b0))) (map (\<lambda>b. Val (Dict (g b))) bs) =
                Inr (Val (Dict D) :: ('k, 'v, 'r) result)"
      and D: "map_of D = foldl (++) (map_of (g b0)) (map (map_of \<circ> g) bs)"
    by (auto simp: comp_def)
  from m have "merge_all (Val (Dict (g (hd (batches x c))))) (map (\<lambda>b. Val (Dict (g b))) (tl (batches x c)))
                 = Inr (Val (Dict D) :: ('k, 'v, 'r) result)" unfolding b by simp
  from doChunks_merge_all [of c x _ "\<lambda>b. Val (Dict (g b))", OF assms(1,2) refl this] D
  show ?thesis unfolding b by auto
qed

lemma doChunks_Frame:
  assumes "1 \<le> c" and "x \<noteq> []"
  shows "fst (doChunks (\<lambda>b. Inr (Some (Val (Frame (r b))))) x c) =
           Inr (Some (Val (Frame (concat (map r (batches x c))))))"
proof -
  from assms(1,2) obtain b0 bs where b: "batches x c = b0 # bs"
    using batches_not_Nil [of c x] by (cases "batches x c") simp_all
  from merge_all_Frame [of "r b0" "map r bs"]
  have "merge_all (Val (Frame (r (hd (batches x c))))) (map (\<lambda>b. Val (Frame (r b))) (tl (batches x c)))
          = Inr (Val (Frame (concat (map r (batches x c)))))" unfolding b by (simp add: comp_def)
  from doChunks_merge_all [of c x _ "\<lambda>b. Val (Frame (r b))", OF assms(1,2) refl this]
  show ?thesis .
qed

lemma doChunks_Tuple_Dict:
  assumes "1 \<le> c" and "x \<noteq> []"
    and "\<forall>b \<in> set (batches x c). distinct (map fst (g b)) \<and> distinct (map fst (h b))"
  shows "\<exists>D0 D1. fst (doChunks (\<lambda>b. Inr (Some (Tuple (Dict (g b)) (Dict (h b))))) x c) =
                  Inr (Some (Tuple (Dict D0) (Dict D1) :: ('k, 'v, 'r) result)) \<and>
             map_of D0 = foldl (++) Map.empty (map (map_of \<circ> g) (batches x c)) \<and>
             map_of D1 = foldl (++) Map.empty (map (map_of \<circ> h) (batches x c))"
proof -
  from assms(1,2) obtain b0 bs where b: "batches x c = b0 # bs"
    using batches_not_Nil [of c x] by (cases "batches x c") simp_all
  from assms(3) have "\<forall>p \<in> set (map (\<lambda>b. (g b, h b)) bs). distinct (map fst (fst p)) \<and> distinct (map fst (snd p))"
    unfolding b by simp
  from merge_all_Tuple_Dict [OF this, of "g b0" "h b0"] obtain D0 D1
    where m: "merge_all (Tuple (Dict (g b0)) (Dict (h b0))) (map (\<lambda>b. Tuple (Dict (g b)) (Dict (h b))) bs)
                = Inr (Tuple (Dict D0) (Dict D1) :: ('k, 'v, 'r) result)"
      and D0: "map_of D0 = foldl (++) (map_of (g b0)) (map (map_of \<circ> g) bs)"
      and D1: "map_of D1 = foldl (++) (map_of (h b0)) (map (map_of \<circ> h) bs)"
    by (auto simp: comp_def)
  from m have "merge_all (Tuple (Dict (g (hd (batches x c)))) (Dict (h (hd (batches x c)))))
                 (map (\<lambda>b. Tuple (Dict (g b)) (Dict (h b))) (tl (batches x c)))
                 = Inr (Tuple (Dict D0) (Dict D1) :: ('k, 'v, 'r) result)" unfolding b by simp
  from doChunks_merge_all [of c x _ "\<lambda>b. Tuple (Dict (g b)) (Dict (h b))", OF assms(1,2) refl this] D0 D1
  show ?thesis unfolding b by auto
qed

lemma doChunks_Tuple_Frame:
  assumes "1 \<le> c" and "x \<noteq> []"
    and "\<forall>b \<in> set (batches x c). distinct (map fst (h b))"
  shows "\<exists>D1. fst (doChunks (\<lambda>b. Inr (Some (Tuple (Frame (r b)) (Dict (h b))))) x c) =
                  Inr (Some (Tuple (Frame (concat (map r (batches x c)))) (Dict D1))) \<and>
             map_of D1 = foldl (++) Map.empty (map (map_of \<circ> h) (batches x c))"
proof -
  from assms(1,2) obtain b0 bs where b: "batches x c = b0 # bs"
    using batches_not_Nil [of c x] by (cases "batches x c") simp_all
  from assms(3) have "\<forall>p \<in> set (map (\<lambda>b. (r b, h b)) bs). distinct (map fst (snd p))"
    unfolding b by simp
  from merge_all_Tuple_Frame [OF this, of "r b0" "h b0"] obtain D1
    where m: "merge_all (Tuple (Frame (r b0)) (Dict (h b0))) (map (\<lambda>b. Tuple (Frame (r b)) (Dict (h b))) bs)
                = Inr (Tuple (Frame (concat (map r (b0 # bs)))) (Dict D1))"
      and D1: "map_of D1 = foldl (++) (map_of (h b0)) (map (map_of \<circ> h) bs)"
    by (auto simp: comp_def)
  from m have "merge_all (Tuple (Frame (r (hd (batches x c)))) (Dict (h (hd (batches x c)))))
                 (map (\<lambda>b. Tuple (Frame (r b)) (Dict (h b))) (tl (batches x c)))
                 = Inr (Tuple (Frame (concat (map r (batches x c)))) (Dict D1))" unfolding b by simp
  from doChunks_merge_all [of c x _ "\<lambda>b. Tuple (Frame (r b)) (Dict (h b))", OF assms(1,2) refl this] D1
  show ?thesis unfolding b by auto
qed

text \<open>
  Claim C6. Let the chunk size be at least 1 and the work list not empty, and let the
  worker return one shape on every batch, its dictionaries having each key once. Then
  \<open>doChunks\<close> returns: for dictionaries \<open>g b\<close>, a dictionary that maps as the union of the
  batches' dictionaries taken in batch order, a later batch overriding an earlier one on a
  key they share; for data frames \<open>r b\<close>, the rows of the batches one after the other, in
  batch order; for pairs, the second components merged as dictionaries and the first
  components merged as dictionaries or appended as data frames, by what they are.
\<close>

theorem doChunks_merge_by_shape:
  assumes "1 \<le> c" and "x \<noteq> []"
    and "\<forall>b \<in> set (batches x c). distinct (map fst (g b)) \<and> distinct (map fst (h b))"
  shows
    "(\<exists>D. fst (doChunks (\<lambda>b. Inr (Some (Val (Dict (g b))))) x c) =
              Inr (Some (Val (Dict D) :: ('k, 'v, 'r) result)) \<and>
          map_of D = foldl (++) Map.empty (map (map_of \<circ> g) (batches x c))) \<and>
     fst (doChunks (\<lambda>b. Inr (Some (Val (Frame (r b))))) x c) =
       Inr (Some (Val (Frame (concat (map r (batches x c)))) :: ('k, 'v, 'r) result)) \<and>
     (\<exists>D0 D1. fst (doChunks (\<lambda>b. Inr (Some (Tuple (Dict (g b)) (Dict (h b))))) x c) =
                 Inr (Some (Tuple (Dict D0) (Dict D1) :: ('k, 'v, 'r) result)) \<and>
          map_of D0 = foldl (++) Map.empty (map (map_of \<circ> g) (batches x c)) \<and>
          map_of D1 = foldl (++) Map.empty (map (map_of \<circ> h) (batches x c))) \<and>
     (\<exists>D1. fst (doChunks (\<lambda>b. Inr (Some (Tuple (Frame (r b)) (Dict (h b))))) x c) =
              Inr (Some (Tuple (Frame (concat (map r (batches x c)))) (Dict D1) :: ('k, 'v, 'r) result)) \<and>
          map_of D1 = foldl (++) Map.empty (map (map_of \<circ> h) (batches x c)))"
proof -
  from assms(3) have g: "\<forall>b \<in> set (batches x c). distinct (map fst (g b))"
    and h: "\<forall>b \<in> set (batches x c). distinct (map fst (h b))" by simp_all
  show ?thesis
    using doChunks_Dict [OF assms(1,2) g] doChunks_Frame [OF assms(1,2), of r]
      doChunks_Tuple_Dict [OF assms(1,2,3)] doChunks_Tuple_Frame [OF assms(1,2) h, of r]
    by simp
qed

theorem doChunks_merge_by_shape_witness:
  "(1::nat) \<le> 2 \<and> batches [''Q1'', ''Q2'', ''Q3''] 2 = [[''Q1'', ''Q2''], [''Q3'']] \<and>
   (\<exists>D. fst (doChunks (\<lambda>b. Inr (Some (Val (Dict [(''n'', length b), (hd b, 0)]))))
               [''Q1'', ''Q2'', ''Q3''] 2) =
              Inr (Some (Val (Dict D) :: (string, nat, string) result)) \<and>
        map_of D = [''Q1'' \<mapsto> 0, ''Q3'' \<mapsto> 0, ''n'' \<mapsto> 1]) \<and>
   fst (doChunks (\<lambda>b. Inr (Some (Val (Frame b)))) [''Q1'', ''Q2'', ''Q3''] 2) =
     Inr (Some (Val (Frame [''Q1'', ''Q2'', ''Q3'']) :: (string, nat, string) result)) \<and>
   (\<exists>D1. fst (doChunks (\<lambda>b. Inr (Some (Tuple (Frame b) (Dict [(''last'', length b)]))))
                [''Q1'', ''Q2'', ''Q3''] 2) =
              Inr (Some (Tuple (Frame [''Q1'', ''Q2'', ''Q3'']) (Dict D1) :: (string, nat, string) result)) \<and>
        map_of D1 = [''last'' \<mapsto> 1])"
proof -
  have b: "batches [''Q1'', ''Q2'', ''Q3''] 2 = [[''Q1'', ''Q2''], [''Q3'']]"
    by (simp add: batches_def slice_def upt_rec)
  have d: "\<forall>b \<in> set (batches [''Q1'', ''Q2'', ''Q3''] 2).
             distinct (map fst [(''n'', length b), (hd b, 0::nat)]) \<and>
             distinct (map fst [(''last'', length b)])"
    unfolding b by simp
  from doChunks_merge_by_shape [of 2 "[''Q1'', ''Q2'', ''Q3'']"
      "\<lambda>b. [(''n'', length b), (hd b, 0)]" "\<lambda>b. [(''last'', length b)]" "\<lambda>b. b", OF _ _ d]
  show ?thesis unfolding b by simp
qed

section \<open>Invalid work lists\<close>












section \<open>The retries of \<open>reqMediaWiki\<close>\<close>

text \<open>
  Claim C10. Let the request pass the checks of \<open>reqMediaWiki\<close> and let \<open>attempts\<close> be the
  number \<open>a \<ge> 0\<close>. While the answers carry the error code \<open>ratelimited\<close>, the retry number
  \<open>n\<close> comes after a sleep of \<open>60 * n\<close> seconds, and there are at most \<open>a\<close> retries:
  \<^item> if the first \<open>m \<le> a\<close> answers are rate-limited and the next one has no error, its JSON
    is returned after \<open>m + 1\<close> requests and the sleeps \<open>60, 120, \<dots>, 60 * m\<close>;
  \<^item> if the first \<open>a + 1\<close> answers are rate-limited, a \<open>NameError\<close> is raised after
    \<open>a + 1\<close> requests and the sleeps \<open>60, \<dots>, 60 * a\<close>, with no further request;
  \<^item> if the first \<open>m \<le> a\<close> answers are rate-limited and the next one has another error
    code, a \<open>NameError\<close> with that code is raised at once: \<open>m + 1\<close> requests and no sleep
    after the last of them.
\<close>

theorem reqMediaWiki_ratelimited:
  assumes "method = ''GET'' \<or> method = ''POST''" and "accepted query project"
    and "\<forall>i < m. ratelimited (srv (length (requests w) + i))"
  shows
    "(m \<le> a \<and> no_error (srv (length (requests w) + m)) \<longrightarrow>
        reqMediaWiki srv query project method (int a) w =
          (Inr (mw_json (srv (length (requests w) + m))),
           w\<lparr>requests := requests w @ replicate (m + 1) (method, query),
             sleeps := sleeps w @ map (\<lambda>n. 60 * n) [1..<m + 1]\<rparr>)) \<and>
     (m = a + 1 \<longrightarrow>
        reqMediaWiki srv query project method (int a) w =
          (Inl (NameError (show_nat (a + 1) @ '' ratelimited attemps achieved, aborting.'')),
           w\<lparr>requests := requests w @ replicate (a + 1) (method, query),
             sleeps := sleeps w @ map (\<lambda>n. 60 * n) [1..<a + 1]\<rparr>)) \<and>
     (\<forall>code info.
        m \<le> a \<and> raise_for_status (mw_status (srv (length (requests w) + m))) = None \<and>
        j_error (mw_json (srv (length (requests w) + m))) = Some (code, info) \<and>
        code \<noteq> ''ratelimited'' \<longrightarrow>
        reqMediaWiki srv query project method (int a) w =
          (Inl (NameError (''ERROR: reqMediaWiki: '' @ code @ '': '' @ info)),
           w\<lparr>requests := requests w @ replicate (m + 1) (method, query),
             sleeps := sleeps w @ map (\<lambda>n. 60 * n) [1..<m + 1]\<rparr>))"
proof -
  define W where "W k = w\<lparr>requests := requests w @ replicate k (method, query),
                          sleeps := sleeps w @ map (\<lambda>n. 60 * n) [1..<k + 1]\<rparr>" for k
  have idx: "srv (length (requests (W k))) = srv (length (requests w) + k)" for k
    by (simp add: W_def)
  have snoc: "(W k)\<lparr>requests := requests (W k) @ [(method, query)]\<rparr> =
              w\<lparr>requests := requests w @ replicate (k + 1) (method, query),
                sleeps := sleeps w @ map (\<lambda>n. 60 * n) [1..<k + 1]\<rparr>" for k
    by (simp add: W_def replicate_append_same)
  have run: "reqMediaWiki srv query project method (int a) w = mw_loop srv query method (int a) k (W k)"
    if "k \<le> a" and "\<forall>i < k. ratelimited (srv (length (requests w) + i))" for k
    unfolding reqMediaWiki_loop [OF assms(2)] W_def
    by (rule mw_loop_retries0 [OF assms(1) that(2) that(1)])
  have A: "reqMediaWiki srv query project method (int a) w =
          (Inr (mw_json (srv (length (requests w) + m))),
           w\<lparr>requests := requests w @ replicate (m + 1) (method, query),
             sleeps := sleeps w @ map (\<lambda>n. 60 * n) [1..<m + 1]\<rparr>)"
    if "m \<le> a" and "no_error (srv (length (requests w) + m))"
    unfolding run [OF that(1) assms(3)] mw_loop_no_error [where srv=srv and w="W m", OF assms(1) idx that(2)] snoc ..
  have B: "reqMediaWiki srv query project method (int a) w =
          (Inl (NameError (show_nat (a + 1) @ '' ratelimited attemps achieved, aborting.'')),
           w\<lparr>requests := requests w @ replicate (a + 1) (method, query),
             sleeps := sleeps w @ map (\<lambda>n. 60 * n) [1..<a + 1]\<rparr>)"
    if m: "m = a + 1"
  proof -
    from assms(3) m have rl: "\<forall>i < a. ratelimited (srv (length (requests w) + i))"
      and last: "ratelimited (srv (length (requests w) + a))" by simp_all
    have over: "\<not> int (a + 1) \<le> int a" by simp
    show ?thesis
      unfolding run [OF le_refl rl] mw_loop_exceeded [where srv=srv and w="W a", OF assms(1) idx last over] snoc ..
  qed
  have C: "reqMediaWiki srv query project method (int a) w =
          (Inl (NameError (''ERROR: reqMediaWiki: '' @ code @ '': '' @ info)),
           w\<lparr>requests := requests w @ replicate (m + 1) (method, query),
             sleeps := sleeps w @ map (\<lambda>n. 60 * n) [1..<m + 1]\<rparr>)"
    if "m \<le> a" and "raise_for_status (mw_status (srv (length (requests w) + m))) = None"
      and "j_error (mw_json (srv (length (requests w) + m))) = Some (code, info)"
      and "code \<noteq> ''ratelimited''" for code info
    unfolding run [OF that(1) assms(3)] mw_loop_other_error [where srv=srv and w="W m", OF assms(1) idx that(2,3,4)] snoc ..
  from A B C show ?thesis by blast
qed

theorem reqMediaWiki_ratelimited_witness:
  "accepted [(''titles'', ''Max Planck'')] ''en.wikipedia.org'' \<and>
   reqMediaWiki (\<lambda>i. if i < 2 then resp_ratelimited else resp_plain)
       [(''titles'', ''Max Planck'')] ''en.wikipedia.org'' ''GET'' 2 world0 =
     (Inr json_plain,
      \<lparr>requests = replicate 3 (''GET'', [(''titles'', ''Max Planck'')]), sleeps = [60, 120]\<rparr>) \<and>
   reqMediaWiki (\<lambda>i. resp_ratelimited)
       [(''titles'', ''Max Planck'')] ''en.wikipedia.org'' ''GET'' 2 world0 =
     (Inl (NameError ''3 ratelimited attemps achieved, aborting.''),
      \<lparr>requests = replicate 3 (''GET'', [(''titles'', ''Max Planck'')]), sleeps = [60, 120]\<rparr>) \<and>
   reqMediaWiki (\<lambda>i. if i < 1 then resp_ratelimited else resp_badtoken)
       [(''titles'', ''Max Planck'')] ''en.wikipedia.org'' ''GET'' 2 world0 =
     (Inl (NameError ''ERROR: reqMediaWiki: badtoken: Invalid token''),
      \<lparr>requests = [(''GET'', [(''titles'', ''Max Planck'')]), (''GET'', [(''titles'', ''Max Planck'')])],
        sleeps = [60]\<rparr>)"
proof -
  let ?q = "[(''titles'', ''Max Planck'')]"
  have acc: "accepted ?q ''en.wikipedia.org''" by code_simp
  have rl: "ratelimited resp_ratelimited" by code_simp
  have ne: "no_error resp_plain" by code_simp
  have sn: "show_nat 3 = ''3''" by code_simp
  have up: "[Suc 0..<3] = [1, 2]" "[Suc 0..<2] = [1]" by (simp_all add: upt_rec)
  have bad: "raise_for_status (mw_status resp_badtoken) = None"
    "j_error (mw_json resp_badtoken) = Some (''badtoken'', ''Invalid token'')"
    "''badtoken'' \<noteq> ''ratelimited''"
    by code_simp+
  have 1: "reqMediaWiki (\<lambda>i. if i < 2 then resp_ratelimited else resp_plain) ?q ''en.wikipedia.org'' ''GET'' 2 world0 =
     (Inr json_plain, \<lparr>requests = replicate 3 (''GET'', ?q), sleeps = [60, 120]\<rparr>)"
    using reqMediaWiki_ratelimited [of "''GET''" ?q "''en.wikipedia.org''" 2
        "\<lambda>i. if i < 2 then resp_ratelimited else resp_plain" world0 2, THEN conjunct1] acc rl ne
    by (simp add: world0_def resp_plain_def up)
  have 2: "reqMediaWiki (\<lambda>i. resp_ratelimited) ?q ''en.wikipedia.org'' ''GET'' 2 world0 =
     (Inl (NameError ''3 ratelimited attemps achieved, aborting.''),
      \<lparr>requests = replicate 3 (''GET'', ?q), sleeps = [60, 120]\<rparr>)"
    using reqMediaWiki_ratelimited [of "''GET''" ?q "''en.wikipedia.org''" 3
        "\<lambda>i. resp_ratelimited" world0 2, THEN conjunct2, THEN conjunct1] acc rl
    by (simp add: world0_def up sn)
  have 3: "reqMediaWiki (\<lambda>i. if i < 1 then resp_ratelimited else resp_badtoken) ?q ''en.wikipedia.org'' ''GET'' 2 world0 =
     (Inl (NameError ''ERROR: reqMediaWiki: badtoken: Invalid token''),
      \<lparr>requests = [(''GET'', ?q), (''GET'', ?q)], sleeps = [60]\<rparr>)"
    using reqMediaWiki_ratelimited [of "''GET''" ?q "''en.wikipedia.org''" 1
        "\<lambda>i. if i < 1 then resp_ratelimited else resp_badtoken" world0 2,
        THEN conjunct2, THEN conjunct2, rule_format, of "''badtoken''" "''Invalid token''"] acc rl bad
    by (simp add: world0_def up)
  from acc 1 2 3 show ?thesis by simp
qed

section \<open>The status 429 in \<open>reqWDQS\<close>\<close>

text \<open>
  Claim C4, evaluated on the code. On a 429 the wait is the number that a
  \<open>Retry-after\<close> of digits writes, and otherwise the date that \<open>http2time\<close> reads from it
  minus \<open>now\<close>. After any number \<open>m\<close> of 429 answers with waits between 0 and 600 seconds,
  \<open>reqWDQS\<close> has slept each of these waits and sent the same request \<open>m\<close> times again; the
  next answer, if it is not a 429, is the one it returns from. If the next answer is a 429
  with a wait over 600 seconds, \<open>reqWDQS\<close> stops without sleeping for it and without another
  request, but what it raises is not an error of the rate limit: \<open>raise("ERROR: ...")\<close>
  raises the \<open>TypeError\<close> of Python for an operand that is not an exception.
\<close>

theorem reqWDQS_429:
  assumes "method = ''GET'' \<or> method = ''POST''" and "wdqs_format fmt = Some mime"
    and "\<forall>i < m. retrying http2time srv clock (length (requests w) + i)"
  shows
    "(\<forall>t. digits_re t \<longrightarrow>
        retry_wait http2time now (Some t) = Inr (int (int_of_digits (filter is_digit t)))) \<and>
     (\<forall>t target. \<not> digits_re t \<and> http2time t = Some target \<longrightarrow>
        retry_wait http2time now (Some t) = Inr (target - now)) \<and>
     (status_code (srv (length (requests w) + m)) \<noteq> 429 \<longrightarrow>
        reqWDQS http2time json_decode read_csv srv clock sparql_query method fmt w =
          Some (wdqs_return json_decode read_csv fmt (srv (length (requests w) + m)),
                w\<lparr>requests := requests w @ replicate (m + 1) (method, [(''query'', sparql_query)]),
                  sleeps := sleeps w @ map (wait_secs http2time srv clock)
                                           [length (requests w)..<length (requests w) + m]\<rparr>)) \<and>
     (\<forall>t. status_code (srv (length (requests w) + m)) = 429 \<and>
          wait_of http2time srv clock (length (requests w) + m) = Inr t \<and> t > 600 \<longrightarrow>
        reqWDQS http2time json_decode read_csv srv clock sparql_query method fmt w =
          Some (Inl (TypeError ''exceptions must derive from BaseException''),
                w\<lparr>requests := requests w @ replicate (m + 1) (method, [(''query'', sparql_query)]),
                  sleeps := sleeps w @ map (wait_secs http2time srv clock)
                                           [length (requests w)..<length (requests w) + m]\<rparr>))"
proof -
  let ?b = "length (requests w)"
  let ?ps = "[(''query'', sparql_query)]"
  define W where "W = w\<lparr>requests := requests w @ replicate m (method, ?ps),
                         sleeps := sleeps w @ map (wait_secs http2time srv clock) [?b..<?b + m]\<rparr>"
  have len: "length (requests W) = ?b + m" by (simp add: W_def)
  have snoc: "W\<lparr>requests := requests W @ [(method, ?ps)]\<rparr> =
              w\<lparr>requests := requests w @ replicate (m + 1) (method, ?ps),
                sleeps := sleeps w @ map (wait_secs http2time srv clock) [?b..<?b + m]\<rparr>"
    by (simp add: W_def replicate_append_same)
  have run: "reqWDQS http2time json_decode read_csv srv clock sparql_query method fmt w =
             wdqs_loop http2time json_decode read_csv srv clock method fmt ?ps W"
    unfolding W_def by (rule reqWDQS_retries [OF assms])
  have A: "retry_wait http2time now (Some t) = Inr (int (int_of_digits (filter is_digit t)))"
    if "digits_re t" for t
    using that by (simp add: retry_wait_def)
  have B: "retry_wait http2time now (Some t) = Inr (target - now)"
    if "\<not> digits_re t" and "http2time t = Some target" for t target
    using that by (simp add: retry_wait_def)
  have C: "reqWDQS http2time json_decode read_csv srv clock sparql_query method fmt w =
          Some (wdqs_return json_decode read_csv fmt (srv (?b + m)),
                w\<lparr>requests := requests w @ replicate (m + 1) (method, ?ps),
                  sleeps := sleeps w @ map (wait_secs http2time srv clock) [?b..<?b + m]\<rparr>)"
    if "status_code (srv (?b + m)) \<noteq> 429"
    by (rule reqWDQS_returns [OF assms that])
  have D: "reqWDQS http2time json_decode read_csv srv clock sparql_query method fmt w =
          Some (Inl (TypeError ''exceptions must derive from BaseException''),
                w\<lparr>requests := requests w @ replicate (m + 1) (method, ?ps),
                  sleeps := sleeps w @ map (wait_secs http2time srv clock) [?b..<?b + m]\<rparr>)"
    if "status_code (srv (?b + m)) = 429" and "wait_of http2time srv clock (?b + m) = Inr t"
      and "t > 600" for t
  proof -
    from that have "status_code (srv (length (requests W))) = 429"
      and "wait_of http2time srv clock (length (requests W)) = Inr t"
      unfolding len by simp_all
    then have "wdqs_loop http2time json_decode read_csv srv clock method fmt ?ps W =
        Some (Inl raise_str, W\<lparr>requests := requests W @ [(method, ?ps)]\<rparr>)"
      using that(3) by (intro wdqs_loop_over_limit [where srv=srv and w=W and t=t, OF assms(1)])
    then show ?thesis unfolding run snoc raise_str_def .
  qed
  from A B C D show ?thesis by blast
qed

theorem reqWDQS_429_witness:
  "wdqs_format ''json'' = Some ''application/sparql-results+json'' \<and>
   retrying http2time_stub (\<lambda>i. if i = 0 then resp_429 ''120'' else resp_429 ''601'') (\<lambda>i. 0) 0 \<and>
   wait_of http2time_stub (\<lambda>i. if i = 0 then resp_429 ''120'' else resp_429 ''601'') (\<lambda>i. 0) 1 = Inr 601 \<and>
   retry_wait http2time_stub 1445412360 (Some ''Wed, 21 Oct 2015 07:28:00 GMT'') = Inr 120 \<and>
   reqWDQS http2time_stub decode_stub decode_stub
       (\<lambda>i. if i = 0 then resp_429 ''120'' else resp_429 ''601'') (\<lambda>i. 0)
       ''SELECT 1'' ''GET'' ''json'' world0 =
     Some (Inl (TypeError ''exceptions must derive from BaseException''),
           \<lparr>requests = [(''GET'', [(''query'', ''SELECT 1'')]), (''GET'', [(''query'', ''SELECT 1'')])],
            sleeps = [120]\<rparr>)"
proof -
  let ?srv = "\<lambda>i::nat. if i = 0 then resp_429 ''120'' else resp_429 ''601''"
  let ?clock = "\<lambda>i::nat. 0::int"
  have f: "wdqs_format ''json'' = Some ''application/sparql-results+json''" by code_simp
  have r: "retrying http2time_stub ?srv ?clock 0" by code_simp
  have s: "status_code (?srv 1) = 429" by code_simp
  have t: "wait_of http2time_stub ?srv ?clock 1 = Inr 601" by code_simp
  have ws: "wait_secs http2time_stub ?srv ?clock 0 = 120" by code_simp
  have nd: "\<not> digits_re ''Wed, 21 Oct 2015 07:28:00 GMT''" by code_simp
  have h: "http2time_stub ''Wed, 21 Oct 2015 07:28:00 GMT'' = Some 1445412480" by code_simp
  note inst = reqWDQS_429 [of "''GET''" "''json''" "''application/sparql-results+json''" 1
      http2time_stub ?srv ?clock world0 1445412360 decode_stub decode_stub "''SELECT 1''"]
  have pre: "\<forall>i < 1. retrying http2time_stub ?srv ?clock (length (requests world0) + i)"
    using r by (simp add: world0_def)
  have d: "retry_wait http2time_stub 1445412360 (Some ''Wed, 21 Oct 2015 07:28:00 GMT'') = Inr 120"
    using inst [OF _ f pre, THEN conjunct2, THEN conjunct1, rule_format, of "''Wed, 21 Oct 2015 07:28:00 GMT''" 1445412480]
      nd h by simp
  have "reqWDQS http2time_stub decode_stub decode_stub ?srv ?clock ''SELECT 1'' ''GET'' ''json'' world0 =
     Some (Inl (TypeError ''exceptions must derive from BaseException''),
           \<lparr>requests = [(''GET'', [(''query'', ''SELECT 1'')]), (''GET'', [(''query'', ''SELECT 1'')])],
            sleeps = [120]\<rparr>)"
    using inst [OF _ f pre, THEN conjunct2, THEN conjunct2, THEN conjunct2, rule_format, of 601] s t ws
    by (simp add: world0_def)
  with f r t d show ?thesis by simp
qed

section \<open>The content type of the answer of \<open>reqWDQS\<close>\<close>

lemma wdqs_format_cases:
  "wdqs_format fmt = Some mime \<Longrightarrow>
   fmt = ''json'' \<and> mime = ''application/sparql-results+json'' \<or>
   fmt = ''xml'' \<and> mime = ''application/sparql-results+xml'' \<or>
   fmt = ''csv'' \<and> mime = ''text/csv''"
  by (auto simp: wdqs_format_def split: if_splits)

lemma wdqs_return_2xx:
  assumes "wdqs_format fmt = Some mime"
    and "200 \<le> status_code r" and "status_code r < 300" and "content_type r = Some rtype"
  shows "wdqs_return json_decode read_csv fmt r =
           (if startswith rtype mime
            then (if fmt = ''json'' then map_sum id Json (json_decode (body r))
                  else if fmt = ''xml'' then Inr (Xml (body r))
                  else map_sum id Csv (read_csv (body r)))
            else Inl (ValueError (''reqWDQS() format '' @ sq fmt @ '' or response type '' @
                                  sq rtype @ '' is incorrect'')))"
proof -
  from assms(2,3) have ok: "raise_for_status (status_code r) = None"
    by (simp add: raise_for_status_def)
  from wdqs_format_cases [OF assms(1)] show ?thesis
    by (elim disjE conjE) (simp_all add: wdqs_return_def ok assms(4))
qed

text \<open>
  Claim C8. Let the format asked for be \<open>json\<close>, \<open>xml\<close> or \<open>csv\<close>, with its media type
  \<open>mime\<close>, and let \<open>reqWDQS\<close> receive an answer with a status from 200 to 299 and the
  \<open>Content-Type\<close> \<open>rtype\<close> (possibly after 429 answers that it has waited for). If \<open>rtype\<close>
  does not begin with \<open>mime\<close>, \<open>reqWDQS\<close> raises a \<open>ValueError\<close> whose message names the
  format and \<open>rtype\<close>; if it does, \<open>reqWDQS\<close> returns the body in the representation asked
  for: the decoded JSON, the text of the XML, or the data frame read from the CSV.
\<close>

theorem reqWDQS_content_type:
  assumes "method = ''GET'' \<or> method = ''POST''" and "wdqs_format fmt = Some mime"
    and "\<forall>i < m. retrying http2time srv clock (length (requests w) + i)"
    and "200 \<le> status_code (srv (length (requests w) + m))"
    and "status_code (srv (length (requests w) + m)) < 300"
    and "content_type (srv (length (requests w) + m)) = Some rtype"
  shows
    "(\<not> startswith rtype mime \<longrightarrow>
        reqWDQS http2time json_decode read_csv srv clock sparql_query method fmt w =
          Some (Inl (ValueError (''reqWDQS() format '' @ sq fmt @ '' or response type '' @ sq rtype @
                                 '' is incorrect'')),
                w\<lparr>requests := requests w @ replicate (m + 1) (method, [(''query'', sparql_query)]),
                  sleeps := sleeps w @ map (wait_secs http2time srv clock)
                                           [length (requests w)..<length (requests w) + m]\<rparr>)) \<and>
     (startswith rtype mime \<longrightarrow>
        reqWDQS http2time json_decode read_csv srv clock sparql_query method fmt w =
          Some (if fmt = ''json'' then map_sum id Json (json_decode (body (srv (length (requests w) + m))))
                else if fmt = ''xml'' then Inr (Xml (body (srv (length (requests w) + m))))
                else map_sum id Csv (read_csv (body (srv (length (requests w) + m)))),
                w\<lparr>requests := requests w @ replicate (m + 1) (method, [(''query'', sparql_query)]),
                  sleeps := sleeps w @ map (wait_secs http2time srv clock)
                                           [length (requests w)..<length (requests w) + m]\<rparr>))"
proof -
  from assms(5) have "status_code (srv (length (requests w) + m)) \<noteq> 429" by auto
  note run = reqWDQS_returns [OF assms(1,2,3) this]
  show ?thesis
    unfolding run wdqs_return_2xx [OF assms(2,4,5,6)] by simp
qed

theorem reqWDQS_content_type_witness:
  "wdqs_format ''csv'' = Some ''text/csv'' \<and>
   \<not> startswith ''text/html; charset=utf-8'' ''text/csv'' \<and>
   reqWDQS http2time_stub decode_stub decode_stub (\<lambda>i. resp_200 ''text/html; charset=utf-8'' ''<html/>'')
       (\<lambda>i. 0) ''SELECT 1'' ''POST'' ''csv'' world0 =
     Some (Inl (ValueError (''reqWDQS() format '' @ sq ''csv'' @ '' or response type '' @
                            sq ''text/html; charset=utf-8'' @ '' is incorrect'')),
           \<lparr>requests = [(''POST'', [(''query'', ''SELECT 1'')])], sleeps = []\<rparr>) \<and>
   startswith ''text/csv; charset=utf-8'' ''text/csv'' \<and>
   reqWDQS http2time_stub decode_stub decode_stub (\<lambda>i. resp_200 ''text/csv; charset=utf-8'' ''a,b'')
       (\<lambda>i. 0) ''SELECT 1'' ''POST'' ''csv'' world0 =
     Some (Inr (Csv ''a,b''), \<lparr>requests = [(''POST'', [(''query'', ''SELECT 1'')])], sleeps = []\<rparr>)"
proof -
  have f: "wdqs_format ''csv'' = Some ''text/csv''" by code_simp
  have n: "\<not> startswith ''text/html; charset=utf-8'' ''text/csv''" by code_simp
  have y: "startswith ''text/csv; charset=utf-8'' ''text/csv''" by code_simp
  have d: "decode_stub ''a,b'' = Inr ''a,b''" by code_simp
  have 1: "reqWDQS http2time_stub decode_stub decode_stub (\<lambda>i. resp_200 ''text/html; charset=utf-8'' ''<html/>'')
       (\<lambda>i. 0) ''SELECT 1'' ''POST'' ''csv'' world0 =
     Some (Inl (ValueError (''reqWDQS() format '' @ sq ''csv'' @ '' or response type '' @
                            sq ''text/html; charset=utf-8'' @ '' is incorrect'')),
           \<lparr>requests = [(''POST'', [(''query'', ''SELECT 1'')])], sleeps = []\<rparr>)"
    using reqWDQS_content_type [of "''POST''" "''csv''" "''text/csv''" 0 http2time_stub
        "\<lambda>i. resp_200 ''text/html; charset=utf-8'' ''<html/>''" "\<lambda>i. 0" world0
        "''text/html; charset=utf-8''" decode_stub decode_stub "''SELECT 1''", THEN conjunct1] f n
    by (simp add: world0_def resp_200_def)
  have 2: "reqWDQS http2time_stub decode_stub decode_stub (\<lambda>i. resp_200 ''text/csv; charset=utf-8'' ''a,b'')
       (\<lambda>i. 0) ''SELECT 1'' ''POST'' ''csv'' world0 =
     Some (Inr (Csv ''a,b''), \<lparr>requests = [(''POST'', [(''query'', ''SELECT 1'')])], sleeps = []\<rparr>)"
    using reqWDQS_content_type [of "''POST''" "''csv''" "''text/csv''" 0 http2time_stub
        "\<lambda>i. resp_200 ''text/csv; charset=utf-8'' ''a,b''" "\<lambda>i. 0" world0
        "''text/csv; charset=utf-8''" decode_stub decode_stub "''SELECT 1''", THEN conjunct2] f y d
    by (simp add: world0_def resp_200_def)
  from f n y 1 2 show ?thesis by simp
qed

section \<open>The normalization of a title\<close>










section \<open>The continuation loop of \<open>m_PageOutLinks\<close>\<close>








end
